theory Spec2Isabelle
  imports Main "HOL-Library.AList"
begin

section \<open>SentinelGuard backend: the rate limiter\<close>

text \<open>
  The embedding follows \<^verbatim>\<open>SentinelGuard/backend/index.js\<close>.

  \<^verbatim>\<open>rateLimitMap\<close> is a JavaScript object used as a dictionary from the hex digest of
  the client address to an entry \<^verbatim>\<open>{ count, start }\<close>. It is modelled as an association
  list in the order \<^verbatim>\<open>Object.keys\<close> enumerates it (insertion order; an object has each
  key once, which is the invariant \<open>distinct (map fst m)\<close>). Reading \<^verbatim>\<open>rateLimitMap[ip]\<close>
  is \<open>map_of\<close>, assigning \<^verbatim>\<open>rateLimitMap[ip] = e\<close> is \<open>AList.update\<close> (an existing key
  keeps its place, a new key goes last), \<^verbatim>\<open>delete rateLimitMap[key]\<close> is
  \<open>AList.delete\<close>. The digest is 64 hexadecimal digits, so it never names a property the
  object inherits from its prototype.

  \<^verbatim>\<open>Date.now()\<close> is an integer number of milliseconds and \<^verbatim>\<open>count\<close> a small integer;
  both are \<open>int\<close>. The clock value and the hash function (SHA-256 of the platform's
  \<^verbatim>\<open>crypto\<close> module) are parameters.
\<close>

record entry =
  count :: int
  start :: int

type_synonym table = "(string \<times> entry) list"

definition RATE_LIMIT_WINDOW_MS :: int where
  "RATE_LIMIT_WINDOW_MS = 60 * 1000"

definition MAX_REQUESTS_PER_WINDOW :: int where
  "MAX_REQUESTS_PER_WINDOW = 20"

text \<open>
  One iteration of the loop of \<^verbatim>\<open>cleanupRateLimitMap\<close>: the keys are a snapshot taken
  before the loop, and the only key deleted in an iteration is the one visited, so the
  entry read for a key of the snapshot is always there.
\<close>

definition cleanup_step :: "int \<Rightarrow> string \<Rightarrow> table \<Rightarrow> table" where
  "cleanup_step now key rateLimitMap =
     (case map_of rateLimitMap key of
        None \<Rightarrow> rateLimitMap
      | Some e \<Rightarrow>
          if now - start e > RATE_LIMIT_WINDOW_MS then AList.delete key rateLimitMap
          else rateLimitMap)"

definition cleanupRateLimitMap :: "int \<Rightarrow> table \<Rightarrow> table" where
  "cleanupRateLimitMap now rateLimitMap =
     fold (cleanup_step now) (map fst rateLimitMap) rateLimitMap"

text \<open>
  The middleware either calls \<^verbatim>\<open>next()\<close> or answers with status 429 itself.
\<close>

datatype verdict = Next | Status429

definition rateLimiter :: "(string \<Rightarrow> string) \<Rightarrow> string \<Rightarrow> int \<Rightarrow> table \<Rightarrow> verdict \<times> table" where
  "rateLimiter hashIp rawIp now rateLimitMap =
     (let ip = hashIp rawIp;
          m = cleanupRateLimitMap now rateLimitMap
      in case map_of m ip of
           None \<Rightarrow> (Next, AList.update ip \<lparr>count = 1, start = now\<rparr> m)
         | Some e \<Rightarrow>
             if now - start e > RATE_LIMIT_WINDOW_MS
             then (Next, AList.update ip \<lparr>count = 1, start = now\<rparr> m)
             else if count e \<ge> MAX_REQUESTS_PER_WINDOW then (Status429, m)
             else (Next, AList.update ip (e\<lparr>count := count e + 1\<rparr>) m))"

text \<open>
  The tables the server can hold: \<^verbatim>\<open>rateLimitMap\<close> starts as \<^verbatim>\<open>{}\<close> and only
  \<^verbatim>\<open>rateLimiter\<close> touches it.
\<close>

inductive reachable :: "(string \<Rightarrow> string) \<Rightarrow> table \<Rightarrow> bool" for hashIp where
  reachable_init: "reachable hashIp []"
| reachable_step: "reachable hashIp m \<Longrightarrow> reachable hashIp (snd (rateLimiter hashIp rawIp now m))"

text \<open>
  Requests served one after the other, each given by the client address and the clock
  value the limiter reads: the verdicts in order, and the table left behind.
\<close>

fun serve :: "(string \<Rightarrow> string) \<Rightarrow> (string \<times> int) list \<Rightarrow> table \<Rightarrow> verdict list \<times> table" where
  "serve hashIp [] m = ([], m)"
| "serve hashIp ((rawIp, now) # reqs) m =
     (let (v, m') = rateLimiter hashIp rawIp now m;
          (vs, m'') = serve hashIp reqs m'
      in (v # vs, m''))"

text \<open>The requests of the clients whose digest is \<open>key\<close>, and the verdicts they got.\<close>

definition requests_of :: "(string \<Rightarrow> string) \<Rightarrow> string \<Rightarrow> (string \<times> int) list \<Rightarrow> (string \<times> int) list" where
  "requests_of hashIp key reqs = filter (\<lambda>(rawIp, now). hashIp rawIp = key) reqs"

definition verdicts_for ::
  "(string \<Rightarrow> string) \<Rightarrow> string \<Rightarrow> (string \<times> int) list \<Rightarrow> verdict list \<Rightarrow> verdict list"
where
  "verdicts_for hashIp key reqs vs =
     map snd (filter (\<lambda>((rawIp, now), v). hashIp rawIp = key) (zip reqs vs))"

text \<open>An entry older than the window at clock value \<open>now\<close>.\<close>

definition stale :: "int \<Rightarrow> entry \<Rightarrow> bool" where
  "stale now e \<longleftrightarrow> now - start e > RATE_LIMIT_WINDOW_MS"

section \<open>SentinelGuard backend: the alert store\<close>

subsection \<open>JSON values\<close>

text \<open>
  What \<^verbatim>\<open>JSON.parse\<close> returns and what \<^verbatim>\<open>express.json()\<close> puts in \<^verbatim>\<open>req.body\<close>. An
  object is the list of its own properties in enumeration order, each name once; reading
  a property is \<open>map_of\<close> (\<open>None\<close> is \<^verbatim>\<open>undefined\<close>), assigning one is \<open>AList.update\<close>:
  an existing property keeps its place and a new one goes last. No operation of the
  program looks into a number; numbers are integers here.
\<close>

datatype json =
    JNull
  | JBool bool
  | JNum int
  | JStr string
  | JArr "json list"
  | JObj "(string \<times> json) list"

text \<open>
  \<^verbatim>\<open>JSON.parse\<close> and \<^verbatim>\<open>JSON.stringify(value, null, 2)\<close> belong to the platform and are
  parameters of the model: \<open>JSON_parse\<close> gives \<open>None\<close> where \<^verbatim>\<open>JSON.parse\<close> throws a
  \<^verbatim>\<open>SyntaxError\<close>.
\<close>

record platform =
  JSON_parse :: "string \<Rightarrow> json option"
  JSON_stringify :: "json \<Rightarrow> string"

subsection \<open>Exceptions and the file system\<close>

datatype exn = TypeError | SyntaxError | IOError

datatype io_op = ExistsDir | ExistsFile | Mkdir | ReadFile | WriteFile string

text \<open>
  The part of the file system the server touches: whether \<^verbatim>\<open>DATA_DIR\<close> exists, the text
  of \<^verbatim>\<open>ALERTS_FILE\<close> if the file exists, and what the environment will do to the calls
  to come: \<open>faults\<close> is read one element per call of \<^verbatim>\<open>mkdirSync\<close>, \<^verbatim>\<open>readFileSync\<close>
  or \<^verbatim>\<open>writeFileSync\<close>, and \<open>True\<close> makes that call throw (a schedule that has run out
  lets every call through). \<^verbatim>\<open>existsSync\<close> never throws. A write that throws leaves the
  file as it was. \<open>io_log\<close> records every call made, in order.
\<close>

record fs =
  dir_exists :: bool
  alerts_file :: "string option"
  faults :: "bool list"
  io_log :: "io_op list"

text \<open>
  A computation runs on the file system and either throws or returns; what it did to
  the file system before throwing stays done.
\<close>

type_synonym 'a io = "fs \<Rightarrow> (exn + 'a) \<times> fs"

definition io_return :: "'a \<Rightarrow> 'a io" where
  "io_return x s = (Inr x, s)"

definition io_throw :: "exn \<Rightarrow> 'a io" where
  "io_throw e s = (Inl e, s)"

definition io_bind :: "'a io \<Rightarrow> ('a \<Rightarrow> 'b io) \<Rightarrow> 'b io" where
  "io_bind m f s = (case m s of (Inl e, s') \<Rightarrow> (Inl e, s') | (Inr x, s') \<Rightarrow> f x s')"

text \<open>\<^verbatim>\<open>try { m } catch (err) { h }\<close>\<close>

definition io_catch :: "'a io \<Rightarrow> (exn \<Rightarrow> 'a io) \<Rightarrow> 'a io" where
  "io_catch m h s = (case m s of (Inl e, s') \<Rightarrow> h e s' | (Inr x, s') \<Rightarrow> (Inr x, s'))"

text \<open>\<^verbatim>\<open>if (b) { m }\<close>\<close>

definition io_when :: "bool \<Rightarrow> unit io \<Rightarrow> unit io" where
  "io_when b m = (if b then m else io_return ())"

text \<open>A call that can fail: it is logged, and takes the next element of the schedule.\<close>

definition call :: "io_op \<Rightarrow> fs \<Rightarrow> bool \<times> fs" where
  "call op s =
     ((case faults s of [] \<Rightarrow> False | b # bs \<Rightarrow> b),
      s\<lparr>faults := drop 1 (faults s), io_log := io_log s @ [op]\<rparr>)"

definition existsSync_DATA_DIR :: "bool io" where
  "existsSync_DATA_DIR s = (Inr (dir_exists s), s\<lparr>io_log := io_log s @ [ExistsDir]\<rparr>)"

definition existsSync_ALERTS_FILE :: "bool io" where
  "existsSync_ALERTS_FILE s =
     (Inr (alerts_file s \<noteq> None), s\<lparr>io_log := io_log s @ [ExistsFile]\<rparr>)"

definition mkdirSync_DATA_DIR :: "unit io" where
  "mkdirSync_DATA_DIR s =
     (case call Mkdir s of
        (True, s') \<Rightarrow> (Inl IOError, s')
      | (False, s') \<Rightarrow> (Inr (), s'\<lparr>dir_exists := True\<rparr>))"

definition readFileSync_ALERTS_FILE :: "string io" where
  "readFileSync_ALERTS_FILE s =
     (case call ReadFile s of
        (True, s') \<Rightarrow> (Inl IOError, s')
      | (False, s') \<Rightarrow>
          (case alerts_file s' of None \<Rightarrow> (Inl IOError, s') | Some text \<Rightarrow> (Inr text, s')))"

definition writeFileSync_ALERTS_FILE :: "string \<Rightarrow> unit io" where
  "writeFileSync_ALERTS_FILE text s =
     (case call (WriteFile text) s of
        (True, s') \<Rightarrow> (Inl IOError, s')
      | (False, s') \<Rightarrow>
          if dir_exists s' then (Inr (), s'\<lparr>alerts_file := Some text\<rparr>)
          else (Inl IOError, s'))"

definition parse :: "platform \<Rightarrow> string \<Rightarrow> json io" where
  "parse P text =
     (case JSON_parse P text of None \<Rightarrow> io_throw SyntaxError | Some v \<Rightarrow> io_return v)"

fun isArray :: "json \<Rightarrow> bool" where
  "isArray (JArr xs) = True"
| "isArray _ = False"

subsection \<open>The store\<close>

definition initAlertsFile :: "platform \<Rightarrow> unit io" where
  "initAlertsFile P =
     io_catch
       (io_bind existsSync_DATA_DIR (\<lambda>dir.
        io_bind (io_when (\<not> dir) mkdirSync_DATA_DIR) (\<lambda>_.
        io_bind existsSync_ALERTS_FILE (\<lambda>there.
        if \<not> there then writeFileSync_ALERTS_FILE ''[]''
        else
          io_bind readFileSync_ALERTS_FILE (\<lambda>content.
          io_bind (parse P content) (\<lambda>parsed.
          io_when (\<not> isArray parsed) (writeFileSync_ALERTS_FILE ''[]'')))))))
       (\<lambda>err.
          io_catch
            (io_bind existsSync_DATA_DIR (\<lambda>dir.
             io_bind (io_when (\<not> dir) mkdirSync_DATA_DIR) (\<lambda>_.
             writeFileSync_ALERTS_FILE ''[]'')))
            (\<lambda>innerErr. io_return ()))"

definition readAlertsSafe :: "platform \<Rightarrow> json io" where
  "readAlertsSafe P =
     io_catch
       (io_bind readFileSync_ALERTS_FILE (\<lambda>data. parse P data))
       (\<lambda>err. io_return (JArr []))"

definition writeAlertsSafe :: "platform \<Rightarrow> json \<Rightarrow> bool io" where
  "writeAlertsSafe P alerts =
     io_catch
       (io_bind (writeFileSync_ALERTS_FILE (JSON_stringify P alerts)) (\<lambda>_. io_return True))
       (\<lambda>err. io_return False)"

text \<open>
  \<^verbatim>\<open>existing.push(alert)\<close>: on an array it appends; no other JSON value has a callable
  \<^verbatim>\<open>push\<close>, and the call throws a \<^verbatim>\<open>TypeError\<close>.
\<close>

fun push :: "json \<Rightarrow> json \<Rightarrow> json io" where
  "push (JArr xs) x = io_return (JArr (xs @ [x]))"
| "push _ x = io_throw TypeError"

text \<open>
  Lines 149 to 152 of the handler of \<^verbatim>\<open>POST /api/alert\<close>: read the collection, push the
  alert, write the collection back. The result is that of \<^verbatim>\<open>writeAlertsSafe\<close>.
\<close>

definition appendOne :: "platform \<Rightarrow> json \<Rightarrow> bool io" where
  "appendOne P alert =
     io_bind (readAlertsSafe P) (\<lambda>existing.
     io_bind (push existing alert) (\<lambda>existing'.
     writeAlertsSafe P existing'))"

text \<open>\<^verbatim>\<open>GET /api/alerts\<close> answers with what \<^verbatim>\<open>readAlertsSafe\<close> returns.\<close>

definition get_alerts :: "platform \<Rightarrow> json io" where
  "get_alerts P = readAlertsSafe P"

section \<open>SentinelGuard backend: the alert service\<close>

text \<open>
  The answers of \<^verbatim>\<open>POST /api/alert\<close>: 200 \<^verbatim>\<open>alert saved\<close>, 400, 429, 500
  \<^verbatim>\<open>Failed to save alert\<close>, and the answer of the framework when the handler throws.
\<close>

datatype response = AlertSaved | InvalidAlert | TooManyRequests | SaveFailed | Uncaught exn

definition allowedSeverities :: "json list" where
  "allowedSeverities = [JStr ''LOW'', JStr ''MEDIUM'', JStr ''HIGH'']"

text \<open>\<^verbatim>\<open>typeof x === 'string'\<close>, and \<^verbatim>\<open>xs.includes(x)\<close>, for a property that was read.\<close>

fun typeof_string :: "json option \<Rightarrow> bool" where
  "typeof_string (Some (JStr s)) = True"
| "typeof_string _ = False"

fun includes_val :: "json list \<Rightarrow> json option \<Rightarrow> bool" where
  "includes_val xs None = False"
| "includes_val xs (Some v) = (v \<in> set xs)"

text \<open>
  The handler, once the limiter has called \<^verbatim>\<open>next()\<close>. \<open>stamp\<close> is the value of
  \<^verbatim>\<open>new Date().toISOString()\<close>. Reading a property of \<^verbatim>\<open>null\<close> throws (and so does
  reading one of \<^verbatim>\<open>undefined\<close>, which \<open>JNull\<close> stands for as well); an array or a
  primitive value has no property \<^verbatim>\<open>type\<close>, so the test of line 138 sends it to the
  answer 400. With its default options \<^verbatim>\<open>express.json()\<close> delivers objects and arrays.
\<close>

definition post_alert_handler :: "platform \<Rightarrow> string \<Rightarrow> json \<Rightarrow> response io" where
  "post_alert_handler P stamp alert =
     (case alert of
        JNull \<Rightarrow> io_throw TypeError
      | JObj props \<Rightarrow>
          if \<not> typeof_string (map_of props ''type'') \<or>
             \<not> typeof_string (map_of props ''message'') \<or>
             \<not> includes_val allowedSeverities (map_of props ''severity'')
          then io_return InvalidAlert
          else
            io_bind (appendOne P (JObj (AList.update ''time'' (JStr stamp) props))) (\<lambda>success.
            if \<not> success then io_return SaveFailed else io_return AlertSaved)
      | _ \<Rightarrow> io_return InvalidAlert)"

text \<open>
  The route: \<^verbatim>\<open>app.post('/api/alert', rateLimiter, handler)\<close>. The server's state is
  the limiter's table and the file system; \<open>now\<close> is the limiter's \<^verbatim>\<open>Date.now()\<close>.
\<close>

record server =
  rate_limit_map :: table
  disk :: fs

definition post_alert ::
  "platform \<Rightarrow> (string \<Rightarrow> string) \<Rightarrow> string \<Rightarrow> int \<Rightarrow> string \<Rightarrow> json \<Rightarrow> server \<Rightarrow> response \<times> server"
where
  "post_alert P hashIp rawIp now stamp body srv =
     (case rateLimiter hashIp rawIp now (rate_limit_map srv) of
        (Status429, m) \<Rightarrow> (TooManyRequests, srv\<lparr>rate_limit_map := m\<rparr>)
      | (Next, m) \<Rightarrow>
          (case post_alert_handler P stamp body (disk srv) of
             (Inl e, d) \<Rightarrow> (Uncaught e, \<lparr>rate_limit_map = m, disk = d\<rparr>)
           | (Inr r, d) \<Rightarrow> (r, \<lparr>rate_limit_map = m, disk = d\<rparr>)))"

text \<open>No call to come is scheduled to fail.\<close>

definition quiet :: "fs \<Rightarrow> bool" where
  "quiet s \<longleftrightarrow> True \<notin> set (faults s)"

section \<open>A reader and a printer for JSON text\<close>

text \<open>
  Where a statement below is run on a concrete file, this reader and printer stand for
  \<^verbatim>\<open>JSON.parse\<close> and \<^verbatim>\<open>JSON.stringify(value, null, 2)\<close>. They cover the JSON the alerts
  are made of: \<^verbatim>\<open>null\<close>, the booleans, integers, strings with the short escapes, arrays
  and objects, with two spaces of indentation per level when printing.
\<close>

definition is_ws :: "char \<Rightarrow> bool" where
  "is_ws c \<longleftrightarrow> c = CHR '' '' \<or> c = CHR 0x0A \<or> c = CHR 0x0D \<or> c = CHR 0x09"

definition skip_ws :: "string \<Rightarrow> string" where
  "skip_ws = dropWhile is_ws"

definition is_digit :: "char \<Rightarrow> bool" where
  "is_digit c \<longleftrightarrow> c \<in> set ''0123456789''"

definition digit_val :: "char \<Rightarrow> nat" where
  "digit_val c = of_char c - 48"

definition starts :: "string \<Rightarrow> string \<Rightarrow> bool" where
  "starts p s \<longleftrightarrow> take (length p) s = p"

definition unescape :: "char \<Rightarrow> char option" where
  "unescape c =
     (if c = CHR 0x22 then Some (CHR 0x22)
      else if c = CHR 0x5C then Some (CHR 0x5C)
      else if c = CHR ''/'' then Some (CHR ''/'')
      else if c = CHR ''n'' then Some (CHR 0x0A)
      else if c = CHR ''r'' then Some (CHR 0x0D)
      else if c = CHR ''t'' then Some (CHR 0x09)
      else None)"

fun parse_chars :: "string \<Rightarrow> (string \<times> string) option" where
  "parse_chars [] = None"
| "parse_chars (c # cs) =
     (if c = CHR 0x22 then Some ([], cs)
      else if c = CHR 0x5C then
        (case cs of
           [] \<Rightarrow> None
         | e # rest \<Rightarrow>
             (case unescape e of
                None \<Rightarrow> None
              | Some u \<Rightarrow> map_option (\<lambda>(t, r). (u # t, r)) (parse_chars rest)))
      else if (of_char c :: nat) < 32 then None
      else map_option (\<lambda>(t, r). (c # t, r)) (parse_chars cs))"

definition parse_nat :: "string \<Rightarrow> (nat \<times> string) option" where
  "parse_nat s =
     (let ds = takeWhile is_digit s in
      if ds = [] \<or> (length ds > 1 \<and> hd ds = CHR ''0'') then None
      else Some (foldl (\<lambda>n d. 10 * n + digit_val d) 0 ds, dropWhile is_digit s))"

definition own_properties :: "(string \<times> json) list \<Rightarrow> (string \<times> json) list" where
  "own_properties ps = fold (\<lambda>(k, v). AList.update k v) ps []"

fun parse_value :: "nat \<Rightarrow> string \<Rightarrow> (json \<times> string) option"
  and parse_elems :: "nat \<Rightarrow> string \<Rightarrow> (json list \<times> string) option"
  and parse_members :: "nat \<Rightarrow> string \<Rightarrow> ((string \<times> json) list \<times> string) option"
where
  "parse_value 0 s = None"
| "parse_value (Suc n) s =
     (let t = skip_ws s in
      if starts ''null'' t then Some (JNull, drop 4 t)
      else if starts ''true'' t then Some (JBool True, drop 4 t)
      else if starts ''false'' t then Some (JBool False, drop 5 t)
      else
        (case t of
           [] \<Rightarrow> None
         | c # r \<Rightarrow>
             if c = CHR 0x22 then map_option (\<lambda>(x, r'). (JStr x, r')) (parse_chars r)
             else if c = CHR ''['' then
               (if starts '']'' (skip_ws r) then Some (JArr [], drop 1 (skip_ws r))
                else map_option (\<lambda>(xs, r'). (JArr xs, r')) (parse_elems n r))
             else if c = CHR ''{'' then
               (if starts ''}'' (skip_ws r) then Some (JObj [], drop 1 (skip_ws r))
                else map_option (\<lambda>(ps, r'). (JObj (own_properties ps), r')) (parse_members n r))
             else if c = CHR ''-'' then map_option (\<lambda>(k, r'). (JNum (- int k), r')) (parse_nat r)
             else map_option (\<lambda>(k, r'). (JNum (int k), r')) (parse_nat t)))"
| "parse_elems 0 s = None"
| "parse_elems (Suc n) s =
     (case parse_value n s of
        None \<Rightarrow> None
      | Some (v, r) \<Rightarrow>
          (let t = skip_ws r in
           if starts '','' t then map_option (\<lambda>(vs, r'). (v # vs, r')) (parse_elems n (drop 1 t))
           else if starts '']'' t then Some ([v], drop 1 t)
           else None))"
| "parse_members 0 s = None"
| "parse_members (Suc n) s =
     (let t = skip_ws s in
      if \<not> starts [CHR 0x22] t then None
      else
        (case parse_chars (drop 1 t) of
           None \<Rightarrow> None
         | Some (k, r) \<Rightarrow>
             if \<not> starts '':'' (skip_ws r) then None
             else
               (case parse_value n (drop 1 (skip_ws r)) of
                  None \<Rightarrow> None
                | Some (v, r') \<Rightarrow>
                    (let t' = skip_ws r' in
                     if starts '','' t' then
                       map_option (\<lambda>(ps, r''). ((k, v) # ps, r'')) (parse_members n (drop 1 t'))
                     else if starts ''}'' t' then Some ([(k, v)], drop 1 t')
                     else None))))"

definition json_parse :: "string \<Rightarrow> json option" where
  "json_parse s =
     (case parse_value (Suc (length s)) s of
        None \<Rightarrow> None
      | Some (v, r) \<Rightarrow> if skip_ws r = [] then Some v else None)"


fun digits :: "nat \<Rightarrow> string" where
  "digits n = (if n < 10 then [char_of (48 + n)] else digits (n div 10) @ [char_of (48 + n mod 10)])"

declare digits.simps [simp del]

definition show_int :: "int \<Rightarrow> string" where
  "show_int i = (if i < 0 then CHR ''-'' # digits (nat (- i)) else digits (nat i))"

fun escape :: "char \<Rightarrow> string" where
  "escape c =
     (if c = CHR 0x22 then [CHR 0x5C, CHR 0x22]
      else if c = CHR 0x5C then [CHR 0x5C, CHR 0x5C]
      else if c = CHR 0x0A then [CHR 0x5C, CHR ''n'']
      else if c = CHR 0x0D then [CHR 0x5C, CHR ''r'']
      else if c = CHR 0x09 then [CHR 0x5C, CHR ''t'']
      else [c])"

definition quote :: "string \<Rightarrow> string" where
  "quote t = CHR 0x22 # concat (map escape t) @ [CHR 0x22]"

fun join :: "string \<Rightarrow> string list \<Rightarrow> string" where
  "join sep [] = []"
| "join sep [x] = x"
| "join sep (x # y # ys) = x @ sep @ join sep (y # ys)"

fun stringify_at :: "nat \<Rightarrow> json \<Rightarrow> string" where
  "stringify_at ind JNull = ''null''"
| "stringify_at ind (JBool b) = (if b then ''true'' else ''false'')"
| "stringify_at ind (JNum i) = show_int i"
| "stringify_at ind (JStr t) = quote t"
| "stringify_at ind (JArr xs) =
     (if xs = [] then ''[]''
      else ''['' @ [CHR 0x0A] @
           join ('','' @ [CHR 0x0A])
             (map (\<lambda>x. replicate (ind + 2) (CHR '' '') @ stringify_at (ind + 2) x) xs) @
           [CHR 0x0A] @ replicate ind (CHR '' '') @ '']'')"
| "stringify_at ind (JObj ps) =
     (if ps = [] then ''{}''
      else ''{'' @ [CHR 0x0A] @
           join ('','' @ [CHR 0x0A])
             (map (\<lambda>(k, v). replicate (ind + 2) (CHR '' '') @ quote k @ '': '' @ stringify_at (ind + 2) v) ps) @
           [CHR 0x0A] @ replicate ind (CHR '' '') @ ''}'')"

definition json_stringify :: "json \<Rightarrow> string" where
  "json_stringify v = stringify_at 0 v"

definition node :: platform where
  "node = \<lparr>JSON_parse = json_parse, JSON_stringify = json_stringify\<rparr>"

section \<open>Auxiliary definitions\<close>

text \<open>
  The first two statements of both \<^verbatim>\<open>try\<close> blocks of \<^verbatim>\<open>initAlertsFile\<close>: create
  \<^verbatim>\<open>DATA_DIR\<close> unless it exists.
\<close>

definition ensure_dir :: "unit io" where
  "ensure_dir = io_bind existsSync_DATA_DIR (\<lambda>dir. io_when (\<not> dir) mkdirSync_DATA_DIR)"

text \<open>A file system with the directory, the file holding the given text, and no fault to come.\<close>

definition disk_with :: "string \<Rightarrow> fs" where
  "disk_with text = \<lparr>dir_exists = True, alerts_file = Some text, faults = [], io_log = []\<rparr>"

text \<open>A port-scan alert, as the properties of a request body.\<close>

definition port_scan :: "(string \<times> json) list" where
  "port_scan =
     [(''type'', JStr ''port-scan''), (''message'', JStr ''5 ports probed''),
      (''severity'', JStr ''HIGH'')]"

section \<open>The rate limiter: proofs\<close>

subsection \<open>The sweep\<close>

lemma map_of_distinct_iff:
  "distinct (map fst m) \<Longrightarrow> map_of m k = Some e \<longleftrightarrow> (k, e) \<in> set m"
  by simp

lemma cleanup_step_filter:
  assumes "distinct (map fst m)"
  shows "cleanup_step now key m = filter (\<lambda>(k, e). k = key \<longrightarrow> \<not> stale now e) m"
proof (cases "map_of m key")
  case None
  then have "\<forall>(k, e) \<in> set m. k \<noteq> key"
    by (auto simp: map_of_eq_None_iff image_iff)
  then have "filter (\<lambda>(k, e). k = key \<longrightarrow> \<not> stale now e) m = m"
    by (intro filter_True) auto
  with None show ?thesis
    by (simp add: cleanup_step_def)
next
  case (Some e)
  have only: "\<And>k e'. (k, e') \<in> set m \<Longrightarrow> k = key \<Longrightarrow> e' = e"
    using Some assms by (metis map_of_distinct_iff option.inject)
  show ?thesis
  proof (cases "stale now e")
    case True
    have "filter (\<lambda>(k, e). k = key \<longrightarrow> \<not> stale now e) m = filter (\<lambda>(k, e). key \<noteq> k) m"
      by (rule filter_cong) (use only True in auto)
    with Some True show ?thesis
      by (simp add: cleanup_step_def stale_def AList.delete_eq)
  next
    case False
    have "filter (\<lambda>(k, e). k = key \<longrightarrow> \<not> stale now e) m = m"
      by (intro filter_True) (use only False in auto)
    with Some False show ?thesis
      by (simp add: cleanup_step_def stale_def)
  qed
qed

lemma distinct_fst_filter:
  "distinct (map fst m) \<Longrightarrow> distinct (map fst (filter P m))"
  by (simp add: distinct_map_filter)

lemma fold_cleanup_step:
  "distinct (map fst m) \<Longrightarrow>
   fold (cleanup_step now) ks m = filter (\<lambda>(k, e). k \<in> set ks \<longrightarrow> \<not> stale now e) m"
proof (induction ks arbitrary: m)
  case Nil
  then show ?case by simp
next
  case (Cons key ks)
  let ?m = "filter (\<lambda>(k, e). k = key \<longrightarrow> \<not> stale now e) m"
  have "fold (cleanup_step now) (key # ks) m = fold (cleanup_step now) ks ?m"
    using Cons.prems by (simp add: cleanup_step_filter)
  also have "\<dots> = filter (\<lambda>(k, e). k \<in> set ks \<longrightarrow> \<not> stale now e) ?m"
    using Cons.prems by (intro Cons.IH distinct_fst_filter)
  also have "\<dots> = filter (\<lambda>(k, e). k \<in> set (key # ks) \<longrightarrow> \<not> stale now e) m"
    by (auto intro: filter_cong)
  finally show ?case .
qed

lemma cleanup_filter:
  assumes "distinct (map fst m)"
  shows "cleanupRateLimitMap now m = filter (\<lambda>(k, e). \<not> stale now e) m"
proof -
  have "cleanupRateLimitMap now m
          = filter (\<lambda>(k, e). k \<in> set (map fst m) \<longrightarrow> \<not> stale now e) m"
    unfolding cleanupRateLimitMap_def using assms by (rule fold_cleanup_step)
  also have "\<dots> = filter (\<lambda>(k, e). \<not> stale now e) m"
    by (rule filter_cong) force+
  finally show ?thesis .
qed

lemma cleanup_distinct:
  "distinct (map fst m) \<Longrightarrow> distinct (map fst (cleanupRateLimitMap now m))"
  by (simp add: cleanup_filter distinct_fst_filter)

lemma cleanup_lookup:
  assumes "distinct (map fst m)"
  shows "map_of (cleanupRateLimitMap now m) k =
           (case map_of m k of None \<Rightarrow> None
            | Some e \<Rightarrow> if stale now e then None else Some e)"
proof (cases "map_of (cleanupRateLimitMap now m) k")
  case None
  show ?thesis
  proof (cases "map_of m k")
    case inner: None
    with None show ?thesis by simp
  next
    case (Some e)
    then have "(k, e) \<in> set m"
      using assms by simp
    moreover have "(k, e) \<notin> set (cleanupRateLimitMap now m)"
      using None cleanup_distinct [OF assms, of now] by (metis map_of_distinct_iff option.distinct(1))
    ultimately have "stale now e"
      using assms by (simp add: cleanup_filter)
    with None Some show ?thesis by simp
  qed
next
  case (Some e)
  then have "(k, e) \<in> set (cleanupRateLimitMap now m)"
    using cleanup_distinct [OF assms, of now] by simp
  then have "(k, e) \<in> set m" "\<not> stale now e"
    using assms by (simp_all add: cleanup_filter)
  with Some assms show ?thesis by simp
qed


subsection \<open>The verdict and the caller's entry\<close>

lemma rateLimiter_opens:
  assumes "distinct (map fst m)"
    and "map_of m (hashIp rawIp) = None \<or> (\<exists>e. map_of m (hashIp rawIp) = Some e \<and> stale now e)"
  shows "rateLimiter hashIp rawIp now m =
           (Next, AList.update (hashIp rawIp) \<lparr>count = 1, start = now\<rparr> (cleanupRateLimitMap now m))"
proof -
  have "map_of (cleanupRateLimitMap now m) (hashIp rawIp) = None"
    using assms by (auto simp: cleanup_lookup)
  then show ?thesis
    by (simp add: rateLimiter_def)
qed

lemma rateLimiter_refuses:
  assumes "distinct (map fst m)"
    and "map_of m (hashIp rawIp) = Some e" "\<not> stale now e"
    and "count e \<ge> MAX_REQUESTS_PER_WINDOW"
  shows "rateLimiter hashIp rawIp now m = (Status429, cleanupRateLimitMap now m)"
proof -
  have "map_of (cleanupRateLimitMap now m) (hashIp rawIp) = Some e"
    using assms by (simp add: cleanup_lookup)
  with assms(3,4) show ?thesis
    by (simp add: rateLimiter_def stale_def)
qed

lemma rateLimiter_counts:
  assumes "distinct (map fst m)"
    and "map_of m (hashIp rawIp) = Some e" "\<not> stale now e"
    and "\<not> count e \<ge> MAX_REQUESTS_PER_WINDOW"
  shows "rateLimiter hashIp rawIp now m =
           (Next, AList.update (hashIp rawIp) (e\<lparr>count := count e + 1\<rparr>) (cleanupRateLimitMap now m))"
proof -
  have "map_of (cleanupRateLimitMap now m) (hashIp rawIp) = Some e"
    using assms by (simp add: cleanup_lookup)
  with assms(3,4) show ?thesis
    by (simp add: rateLimiter_def stale_def)
qed

lemma rateLimiter_distinct:
  assumes "distinct (map fst m)"
  shows "distinct (map fst (snd (rateLimiter hashIp rawIp now m)))"
  using cleanup_distinct [OF assms, of now]
  by (simp add: rateLimiter_def Let_def distinct_update split: option.splits)

lemma set_update_cases:
  "p \<in> set (AList.update k v al) \<Longrightarrow> p = (k, v) \<or> p \<in> set al"
  by (induction al) (auto split: if_splits)

lemma rateLimiter_entries:
  assumes "distinct (map fst m)"
    and "(k, e) \<in> set (snd (rateLimiter hashIp rawIp now m))"
  shows "(k, e) \<in> set (cleanupRateLimitMap now m)
         \<or> (k = hashIp rawIp \<and> e = \<lparr>count = 1, start = now\<rparr>)
         \<or> (\<exists>e0. k = hashIp rawIp \<and> (k, e0) \<in> set (cleanupRateLimitMap now m)
                 \<and> \<not> count e0 \<ge> MAX_REQUESTS_PER_WINDOW \<and> e = e0\<lparr>count := count e0 + 1\<rparr>)"
proof (cases "map_of (cleanupRateLimitMap now m) (hashIp rawIp)")
  case None
  with assms(2) show ?thesis
    by (auto simp: rateLimiter_def Let_def dest!: set_update_cases)
next
  case (Some e0)
  then have "(hashIp rawIp, e0) \<in> set (cleanupRateLimitMap now m)"
    by (rule map_of_SomeD)
  with Some assms(2) show ?thesis
    by (auto simp: rateLimiter_def Let_def dest!: set_update_cases split: if_splits)
qed

text \<open>
  C2. The verdict of \<^verbatim>\<open>rateLimiter\<close> and what it leaves under the caller's key, by the
  four cases on the entry the table held for that key when the request came in: no
  entry, or an entry older than the window: a fresh entry \<open>{count: 1, start: now}\<close> and
  the request goes on; an entry within the window whose count has reached the maximum:
  status 429 and the entry as it was (the table is the swept table, nothing else is
  written); otherwise the count is one higher and the request goes on.
\<close>

theorem rateLimiter_case_analysis:
  assumes "distinct (map fst m)"
  shows "let ip = hashIp rawIp; (v, m') = rateLimiter hashIp rawIp now m in
           (case map_of m ip of
              None \<Rightarrow> v = Next \<and> map_of m' ip = Some \<lparr>count = 1, start = now\<rparr>
            | Some e \<Rightarrow>
                if now - start e > RATE_LIMIT_WINDOW_MS
                then v = Next \<and> map_of m' ip = Some \<lparr>count = 1, start = now\<rparr>
                else if count e \<ge> MAX_REQUESTS_PER_WINDOW
                then v = Status429 \<and> map_of m' ip = Some e \<and> m' = cleanupRateLimitMap now m
                else v = Next \<and> map_of m' ip = Some (e\<lparr>count := count e + 1\<rparr>))"
proof (cases "map_of m (hashIp rawIp)")
  case None
  then show ?thesis
    using rateLimiter_opens [OF assms, of hashIp rawIp now]
    by (simp add: update_conv')
next
  case (Some e)
  consider "stale now e" | "\<not> stale now e" "count e \<ge> MAX_REQUESTS_PER_WINDOW"
    | "\<not> stale now e" "\<not> count e \<ge> MAX_REQUESTS_PER_WINDOW"
    by blast
  then show ?thesis
  proof cases
    case 1
    with Some show ?thesis
      using rateLimiter_opens [OF assms, of hashIp rawIp now]
      by (simp add: update_conv' stale_def)
  next
    case 2
    with Some show ?thesis
      using rateLimiter_refuses [where hashIp = hashIp and rawIp = rawIp, OF assms Some 2] cleanup_lookup [OF assms, of now "hashIp rawIp"]
      by (simp add: stale_def)
  next
    case 3
    with Some show ?thesis
      using rateLimiter_counts [where hashIp = hashIp and rawIp = rawIp, OF assms Some 3]
      by (simp add: update_conv' stale_def)
  qed
qed


theorem rateLimiter_case_analysis_witness:
  "distinct (map fst [(''c0ffee'', \<lparr>count = 20, start = 5\<rparr>), (''beef'', \<lparr>count = 3, start = 7\<rparr>)])
   \<and> rateLimiter (\<lambda>a. a) ''c0ffee'' 1000 [(''c0ffee'', \<lparr>count = 20, start = 5\<rparr>), (''beef'', \<lparr>count = 3, start = 7\<rparr>)]
       = (Status429, [(''c0ffee'', \<lparr>count = 20, start = 5\<rparr>), (''beef'', \<lparr>count = 3, start = 7\<rparr>)])
   \<and> rateLimiter (\<lambda>a. a) ''beef'' 1000 [(''c0ffee'', \<lparr>count = 20, start = 5\<rparr>), (''beef'', \<lparr>count = 3, start = 7\<rparr>)]
       = (Next, [(''c0ffee'', \<lparr>count = 20, start = 5\<rparr>), (''beef'', \<lparr>count = 4, start = 7\<rparr>)])"
  using rateLimiter_case_analysis
          [where m = "[(''c0ffee'', \<lparr>count = 20, start = 5\<rparr>), (''beef'', \<lparr>count = 3, start = 7\<rparr>)]"
             and hashIp = "\<lambda>a. a" and rawIp = "''c0ffee''" and now = 1000]
  by (simp add: rateLimiter_def cleanupRateLimitMap_def cleanup_step_def
        RATE_LIMIT_WINDOW_MS_def MAX_REQUESTS_PER_WINDOW_def)

text \<open>
  C4. \<^verbatim>\<open>rateLimiter\<close> sweeps first: the sweep keeps exactly the entries with
  \<open>now - start \<le> RATE_LIMIT_WINDOW_MS\<close> (in their order), the verdict and the table are
  those the limiter gives on the swept table, every key but the caller's is left as the
  sweep left it, and when the call is over every entry of the table satisfies
  \<open>now - start \<le> RATE_LIMIT_WINDOW_MS\<close>.
\<close>

theorem sweep_before_lookup:
  assumes "distinct (map fst m)"
  shows "cleanupRateLimitMap now m = filter (\<lambda>(k, e). \<not> now - start e > RATE_LIMIT_WINDOW_MS) m
       \<and> rateLimiter hashIp rawIp now m = rateLimiter hashIp rawIp now (cleanupRateLimitMap now m)
       \<and> (\<forall>k. k \<noteq> hashIp rawIp \<longrightarrow>
            map_of (snd (rateLimiter hashIp rawIp now m)) k = map_of (cleanupRateLimitMap now m) k)
       \<and> (\<forall>(k, e) \<in> set (snd (rateLimiter hashIp rawIp now m)).
            now - start e \<le> RATE_LIMIT_WINDOW_MS)"
proof (intro conjI)
  show swept: "cleanupRateLimitMap now m = filter (\<lambda>(k, e). \<not> now - start e > RATE_LIMIT_WINDOW_MS) m"
    using cleanup_filter [OF assms, of now] by (simp add: stale_def)
  have "cleanupRateLimitMap now (cleanupRateLimitMap now m) = cleanupRateLimitMap now m"
    using cleanup_distinct [OF assms, of now] by (simp add: cleanup_filter [OF assms] cleanup_filter)
  then show "rateLimiter hashIp rawIp now m = rateLimiter hashIp rawIp now (cleanupRateLimitMap now m)"
    by (simp add: rateLimiter_def)
  show "\<forall>k. k \<noteq> hashIp rawIp \<longrightarrow>
          map_of (snd (rateLimiter hashIp rawIp now m)) k = map_of (cleanupRateLimitMap now m) k"
    by (simp add: rateLimiter_def Let_def update_conv' split: option.splits)
  show "\<forall>(k, e) \<in> set (snd (rateLimiter hashIp rawIp now m)). now - start e \<le> RATE_LIMIT_WINDOW_MS"
  proof (clarify)
    fix k e
    assume "(k, e) \<in> set (snd (rateLimiter hashIp rawIp now m))"
    from rateLimiter_entries [OF assms this]
    show "now - start e \<le> RATE_LIMIT_WINDOW_MS"
      unfolding swept by (auto simp: RATE_LIMIT_WINDOW_MS_def)
  qed
qed

theorem sweep_before_lookup_witness:
  "distinct (map fst [(''c0ffee'', \<lparr>count = 20, start = 5\<rparr>), (''beef'', \<lparr>count = 3, start = 40000\<rparr>)])
   \<and> cleanupRateLimitMap 70000 [(''c0ffee'', \<lparr>count = 20, start = 5\<rparr>), (''beef'', \<lparr>count = 3, start = 40000\<rparr>)]
       = [(''beef'', \<lparr>count = 3, start = 40000\<rparr>)]
   \<and> snd (rateLimiter (\<lambda>a. a) ''c0ffee'' 70000 [(''c0ffee'', \<lparr>count = 20, start = 5\<rparr>), (''beef'', \<lparr>count = 3, start = 40000\<rparr>)])
       = [(''beef'', \<lparr>count = 3, start = 40000\<rparr>), (''c0ffee'', \<lparr>count = 1, start = 70000\<rparr>)]
   \<and> list_all (\<lambda>(k, e). 70000 - start e \<le> RATE_LIMIT_WINDOW_MS)
         (snd (rateLimiter (\<lambda>a. a) ''c0ffee'' 70000
            [(''c0ffee'', \<lparr>count = 20, start = 5\<rparr>), (''beef'', \<lparr>count = 3, start = 40000\<rparr>)]))"
  using sweep_before_lookup
          [where m = "[(''c0ffee'', \<lparr>count = 20, start = 5\<rparr>), (''beef'', \<lparr>count = 3, start = 40000\<rparr>)]"
             and hashIp = "\<lambda>a. a" and rawIp = "''c0ffee''" and now = 70000]
  by (simp add: rateLimiter_def cleanupRateLimitMap_def cleanup_step_def
        RATE_LIMIT_WINDOW_MS_def MAX_REQUESTS_PER_WINDOW_def)

subsection \<open>Counts stay between one and the maximum\<close>

lemma reachable_invariant:
  "reachable hashIp m \<Longrightarrow>
   distinct (map fst m) \<and> (\<forall>(k, e) \<in> set m. 1 \<le> count e \<and> count e \<le> MAX_REQUESTS_PER_WINDOW)"
proof (induction rule: reachable.induct)
  case reachable_init
  show ?case by simp
next
  case (reachable_step m rawIp now)
  then have d: "distinct (map fst m)"
    and b: "\<And>k e. (k, e) \<in> set m \<Longrightarrow> 1 \<le> count e \<and> count e \<le> MAX_REQUESTS_PER_WINDOW"
    by auto
  have swept: "set (cleanupRateLimitMap now m) \<subseteq> set m"
    by (simp add: cleanup_filter [OF d])
  have "1 \<le> count e \<and> count e \<le> MAX_REQUESTS_PER_WINDOW"
    if "(k, e) \<in> set (snd (rateLimiter hashIp rawIp now m))" for k e
    using rateLimiter_entries [OF d that] swept b
    by (fastforce simp: MAX_REQUESTS_PER_WINDOW_def)
  with rateLimiter_distinct [OF d] show ?case
    by auto
qed

text \<open>
  C9. In every table reachable from the empty one by calls of \<^verbatim>\<open>rateLimiter\<close> (any
  clients, any clock values), every entry has \<open>1 \<le> count \<le> MAX_REQUESTS_PER_WINDOW\<close>,
  which is 20.
\<close>

theorem reachable_count_bounds:
  assumes "reachable hashIp m"
  shows "\<forall>(k, e) \<in> set m. 1 \<le> count e \<and> count e \<le> MAX_REQUESTS_PER_WINDOW \<and> count e \<le> 20"
  using reachable_invariant [OF assms] by (auto simp: MAX_REQUESTS_PER_WINDOW_def)

theorem reachable_count_bounds_witness:
  "reachable (\<lambda>a. a) [(''c0ffee'', \<lparr>count = 2, start = 10\<rparr>), (''beef'', \<lparr>count = 1, start = 30\<rparr>)]
   \<and> list_all (\<lambda>(k, e). 1 \<le> count e \<and> count e \<le> MAX_REQUESTS_PER_WINDOW \<and> count e \<le> 20)
         [(''c0ffee'', \<lparr>count = 2, start = 10\<rparr>), (''beef'', \<lparr>count = 1, start = 30\<rparr>)]"
proof -
  have "reachable (\<lambda>a. a)
          (snd (rateLimiter (\<lambda>a. a) ''beef'' 30
            (snd (rateLimiter (\<lambda>a. a) ''c0ffee'' 20
              (snd (rateLimiter (\<lambda>a. a) ''c0ffee'' 10 []))))))"
    by (intro reachable_step reachable_init)
  then have r: "reachable (\<lambda>a. a)
      [(''c0ffee'', \<lparr>count = 2, start = 10\<rparr>), (''beef'', \<lparr>count = 1, start = 30\<rparr>)]"
    by (simp add: rateLimiter_def cleanupRateLimitMap_def cleanup_step_def
          RATE_LIMIT_WINDOW_MS_def MAX_REQUESTS_PER_WINDOW_def)
  from r reachable_count_bounds [OF r] show ?thesis
    by (simp add: list_all_iff)
qed

subsection \<open>Twenty requests per window\<close>

lemma rateLimiter_other_key:
  assumes "distinct (map fst m)" and "map_of m k = Some e" and "\<not> stale now e"
    and "hashIp rawIp \<noteq> k"
  shows "map_of (snd (rateLimiter hashIp rawIp now m)) k = Some e"
proof -
  have "map_of (snd (rateLimiter hashIp rawIp now m)) k = map_of (cleanupRateLimitMap now m) k"
    using assms(4) by (simp add: rateLimiter_def Let_def update_conv' split: option.splits)
  with assms(1-3) show ?thesis
    by (simp add: cleanup_lookup)
qed

lemma serve_counts:
  assumes "distinct (map fst m)"
    and "map_of m k = Some e"
    and "\<forall>(rawIp, now) \<in> set reqs. \<not> stale now e"
    and "count e + int (length (requests_of hashIp k reqs)) \<le> MAX_REQUESTS_PER_WINDOW"
  shows "\<exists>vs m'. serve hashIp reqs m = (vs, m')
           \<and> length vs = length reqs
           \<and> verdicts_for hashIp k reqs vs = replicate (length (requests_of hashIp k reqs)) Next
           \<and> distinct (map fst m')
           \<and> map_of m' k = Some (e\<lparr>count := count e + int (length (requests_of hashIp k reqs))\<rparr>)"
  using assms
proof (induction reqs arbitrary: m e)
  case Nil
  then show ?case
    by (simp add: verdicts_for_def requests_of_def)
next
  case (Cons q reqs)
  obtain rawIp now where q: "q = (rawIp, now)"
    by (cases q)
  obtain v m1 where step: "rateLimiter hashIp rawIp now m = (v, m1)"
    by (cases "rateLimiter hashIp rawIp now m")
  have fresh: "\<not> stale now e"
    using Cons.prems(3) q by auto
  have d1: "distinct (map fst m1)"
    using rateLimiter_distinct [OF Cons.prems(1), of hashIp rawIp now] step by simp
  show ?case
  proof (cases "hashIp rawIp = k")
    case True
    let ?e = "e\<lparr>count := count e + 1\<rparr>"
    have room: "\<not> count e \<ge> MAX_REQUESTS_PER_WINDOW"
      using Cons.prems(4) q True by (simp add: requests_of_def)
    have l0: "map_of m (hashIp rawIp) = Some e"
      using Cons.prems(2) True by simp
    have "rateLimiter hashIp rawIp now m =
            (Next, AList.update (hashIp rawIp) ?e (cleanupRateLimitMap now m))"
      using rateLimiter_counts [where hashIp = hashIp and rawIp = rawIp, OF Cons.prems(1) l0 fresh room] .
    with step True have v: "v = Next" and l1: "map_of m1 k = Some ?e"
      by (auto simp: update_conv')
    have f1: "\<forall>(rawIp, now) \<in> set reqs. \<not> stale now ?e"
      using Cons.prems(3) by (auto simp: stale_def)
    have c1: "count ?e + int (length (requests_of hashIp k reqs)) \<le> MAX_REQUESTS_PER_WINDOW"
      using Cons.prems(4) q True by (simp add: requests_of_def)
    from Cons.IH [OF d1 l1 f1 c1] obtain vs m' where
      "serve hashIp reqs m1 = (vs, m')" "length vs = length reqs"
      "verdicts_for hashIp k reqs vs = replicate (length (requests_of hashIp k reqs)) Next"
      "distinct (map fst m')"
      "map_of m' k = Some (?e\<lparr>count := count ?e + int (length (requests_of hashIp k reqs))\<rparr>)"
      by blast
    then show ?thesis
      using q True v step by (simp add: verdicts_for_def requests_of_def add.assoc)
  next
    case False
    have l1: "map_of m1 k = Some e"
      using rateLimiter_other_key [where hashIp = hashIp and rawIp = rawIp, OF Cons.prems(1,2) fresh False] step by simp
    have f1: "\<forall>(rawIp, now) \<in> set reqs. \<not> stale now e"
      using Cons.prems(3) by auto
    have c1: "count e + int (length (requests_of hashIp k reqs)) \<le> MAX_REQUESTS_PER_WINDOW"
      using Cons.prems(4) q False by (simp add: requests_of_def)
    from Cons.IH [OF d1 l1 f1 c1] obtain vs m' where
      "serve hashIp reqs m1 = (vs, m')" "length vs = length reqs"
      "verdicts_for hashIp k reqs vs = replicate (length (requests_of hashIp k reqs)) Next"
      "distinct (map fst m')"
      "map_of m' k = Some (e\<lparr>count := count e + int (length (requests_of hashIp k reqs))\<rparr>)"
      by blast
    then show ?thesis
      using q False step by (simp add: verdicts_for_def requests_of_def)
  qed
qed


lemma window_full:
  assumes "distinct (map fst m)"
    and "map_of m (hashIp rawIp) = None
         \<or> (\<exists>e. map_of m (hashIp rawIp) = Some e \<and> stale ws e)"
    and "length (requests_of hashIp (hashIp rawIp) reqs) = 19"
    and "\<forall>(r, t) \<in> set reqs. t - ws \<le> RATE_LIMIT_WINDOW_MS"
  shows "\<exists>vs m'. serve hashIp ((rawIp, ws) # reqs) m = (vs, m')
           \<and> verdicts_for hashIp (hashIp rawIp) ((rawIp, ws) # reqs) vs = replicate 20 Next
           \<and> distinct (map fst m')
           \<and> map_of m' (hashIp rawIp) = Some \<lparr>count = 20, start = ws\<rparr>"
proof -
  let ?e = "\<lparr>count = 1, start = ws\<rparr>"
  let ?m = "AList.update (hashIp rawIp) ?e (cleanupRateLimitMap ws m)"
  have step: "rateLimiter hashIp rawIp ws m = (Next, ?m)"
    using rateLimiter_opens [where hashIp = hashIp and rawIp = rawIp, OF assms(1,2)] .
  have d: "distinct (map fst ?m)"
    using rateLimiter_distinct [OF assms(1), of hashIp rawIp ws] by (simp add: step)
  have l: "map_of ?m (hashIp rawIp) = Some ?e"
    by (simp add: update_conv')
  have f: "\<forall>(r, t) \<in> set reqs. \<not> stale t ?e"
    using assms(4) by (auto simp: stale_def)
  have c: "count ?e + int (length (requests_of hashIp (hashIp rawIp) reqs)) \<le> MAX_REQUESTS_PER_WINDOW"
    using assms(3) by (simp add: MAX_REQUESTS_PER_WINDOW_def)
  from serve_counts [where hashIp = hashIp, OF d l f c] assms(3) obtain vs m' where
    "serve hashIp reqs ?m = (vs, m')"
    "verdicts_for hashIp (hashIp rawIp) reqs vs = replicate 19 Next"
    "distinct (map fst m')"
    "map_of m' (hashIp rawIp) = Some \<lparr>count = 20, start = ws\<rparr>"
    by auto
  then show ?thesis
    by (simp add: step verdicts_for_def numeral_eq_Suc)
qed

text \<open>
  C3. \<open>RATE_LIMIT_WINDOW_MS\<close> is 60000 and \<open>MAX_REQUESTS_PER_WINDOW\<close> is 20. A client
  with no entry, or with an entry older than the window, sends a request at \<open>ws\<close>; then
  requests of any clients follow, none at a clock value later than \<open>ws + 60000\<close>, nineteen
  of them of this client. All twenty of the client go on, and its entry is
  \<open>{count: 20, start: ws}\<close>. A twenty-first request at any clock value no later than
  \<open>ws + 60000\<close> gets status 429 and leaves that entry as it is; a request at
  \<open>ws + 60001\<close>, after the twenty or after the refused one, goes on and leaves the entry
  \<open>{count: 1, start: ws + 60001}\<close>.
\<close>

theorem twenty_per_window:
  assumes "distinct (map fst m)"
    and "map_of m (hashIp rawIp) = None
         \<or> (\<exists>e. map_of m (hashIp rawIp) = Some e \<and> ws - start e > RATE_LIMIT_WINDOW_MS)"
    and "length (requests_of hashIp (hashIp rawIp) reqs) = 19"
    and "\<forall>(r, t) \<in> set reqs. t - ws \<le> 60000"
  shows "RATE_LIMIT_WINDOW_MS = 60000 \<and> MAX_REQUESTS_PER_WINDOW = 20 \<and>
        (case serve hashIp ((rawIp, ws) # reqs) m of (vs, m20) \<Rightarrow>
           verdicts_for hashIp (hashIp rawIp) ((rawIp, ws) # reqs) vs = replicate 20 Next
         \<and> map_of m20 (hashIp rawIp) = Some \<lparr>count = 20, start = ws\<rparr>
         \<and> (\<forall>t. t - ws \<le> 60000 \<longrightarrow>
               (case rateLimiter hashIp rawIp t m20 of (v21, m21) \<Rightarrow>
                  v21 = Status429
                \<and> map_of m21 (hashIp rawIp) = Some \<lparr>count = 20, start = ws\<rparr>
                \<and> fst (rateLimiter hashIp rawIp (ws + 60001) m21) = Next
                \<and> map_of (snd (rateLimiter hashIp rawIp (ws + 60001) m21)) (hashIp rawIp)
                    = Some \<lparr>count = 1, start = ws + 60001\<rparr>))
         \<and> fst (rateLimiter hashIp rawIp (ws + 60001) m20) = Next
         \<and> map_of (snd (rateLimiter hashIp rawIp (ws + 60001) m20)) (hashIp rawIp)
             = Some \<lparr>count = 1, start = ws + 60001\<rparr>)"
proof -
  let ?full = "\<lparr>count = 20, start = ws\<rparr>"
  have reset: "rateLimiter hashIp rawIp (ws + 60001) m' =
                 (Next, AList.update (hashIp rawIp) \<lparr>count = 1, start = ws + 60001\<rparr>
                          (cleanupRateLimitMap (ws + 60001) m'))"
    if "distinct (map fst m')" "map_of m' (hashIp rawIp) = Some ?full" for m'
    using rateLimiter_opens [where hashIp = hashIp and rawIp = rawIp and now = "ws + 60001", OF that(1)] that(2)
    by (simp add: stale_def RATE_LIMIT_WINDOW_MS_def)
  have a2: "map_of m (hashIp rawIp) = None
            \<or> (\<exists>e. map_of m (hashIp rawIp) = Some e \<and> stale ws e)"
    using assms(2) by (simp add: stale_def)
  have a4: "\<forall>(r, t) \<in> set reqs. t - ws \<le> RATE_LIMIT_WINDOW_MS"
    using assms(4) by (simp add: RATE_LIMIT_WINDOW_MS_def)
  from window_full [where hashIp = hashIp and rawIp = rawIp, OF assms(1) a2 assms(3) a4]
  obtain vs m20 where
    b: "serve hashIp ((rawIp, ws) # reqs) m = (vs, m20)"
    and n: "verdicts_for hashIp (hashIp rawIp) ((rawIp, ws) # reqs) vs = replicate 20 Next"
    and d: "distinct (map fst m20)"
    and l: "map_of m20 (hashIp rawIp) = Some ?full"
    by blast
  have denied: "rateLimiter hashIp rawIp t m20 = (Status429, cleanupRateLimitMap t m20)
                \<and> distinct (map fst (cleanupRateLimitMap t m20))
                \<and> map_of (cleanupRateLimitMap t m20) (hashIp rawIp) = Some ?full"
    if "t - ws \<le> 60000" for t
  proof -
    have fresh: "\<not> stale t ?full"
      using that by (simp add: stale_def RATE_LIMIT_WINDOW_MS_def)
    have "rateLimiter hashIp rawIp t m20 = (Status429, cleanupRateLimitMap t m20)"
      using rateLimiter_refuses [where hashIp = hashIp and rawIp = rawIp, OF d l fresh]
      by (simp add: MAX_REQUESTS_PER_WINDOW_def)
    moreover have "map_of (cleanupRateLimitMap t m20) (hashIp rawIp) = Some ?full"
      using fresh l by (simp add: cleanup_lookup [OF d])
    ultimately show ?thesis
      using cleanup_distinct [OF d] by simp
  qed
  have "\<forall>t. t - ws \<le> 60000 \<longrightarrow>
          (case rateLimiter hashIp rawIp t m20 of (v21, m21) \<Rightarrow>
             v21 = Status429
           \<and> map_of m21 (hashIp rawIp) = Some ?full
           \<and> fst (rateLimiter hashIp rawIp (ws + 60001) m21) = Next
           \<and> map_of (snd (rateLimiter hashIp rawIp (ws + 60001) m21)) (hashIp rawIp)
               = Some \<lparr>count = 1, start = ws + 60001\<rparr>)"
  proof (intro allI impI)
    fix t :: int
    assume "t - ws \<le> 60000"
    from denied [OF this] show "case rateLimiter hashIp rawIp t m20 of (v21, m21) \<Rightarrow>
             v21 = Status429
           \<and> map_of m21 (hashIp rawIp) = Some ?full
           \<and> fst (rateLimiter hashIp rawIp (ws + 60001) m21) = Next
           \<and> map_of (snd (rateLimiter hashIp rawIp (ws + 60001) m21)) (hashIp rawIp)
               = Some \<lparr>count = 1, start = ws + 60001\<rparr>"
      by (simp add: reset update_conv')
  qed
  with b n l reset [OF d l] show ?thesis
    by (simp add: update_conv' RATE_LIMIT_WINDOW_MS_def MAX_REQUESTS_PER_WINDOW_def)
qed

theorem twenty_per_window_witness:
  "distinct (map fst [(''beef'', \<lparr>count = 7, start = 900\<rparr>)])
   \<and> map_of [(''beef'', \<lparr>count = 7, start = 900\<rparr>)] ''c0ffee'' = None
   \<and> length (requests_of (\<lambda>a. a) ''c0ffee''
        (concat (replicate 19 [(''c0ffee'', 2000), (''beef'', 2500)]))) = 19
   \<and> list_all (\<lambda>(r, t). t - 1000 \<le> (60000 :: int)) (concat (replicate 19 [(''c0ffee'', 2000), (''beef'', 2500)]))
   \<and> verdicts_for (\<lambda>a. a) ''c0ffee''
        ((''c0ffee'', 1000) # concat (replicate 19 [(''c0ffee'', 2000), (''beef'', 2500)]))
        (fst (serve (\<lambda>a. a)
           ((''c0ffee'', 1000) # concat (replicate 19 [(''c0ffee'', 2000), (''beef'', 2500)]))
           [(''beef'', \<lparr>count = 7, start = 900\<rparr>)]))
       = replicate 20 Next
   \<and> fst (rateLimiter (\<lambda>a. a) ''c0ffee'' 61000
        (snd (serve (\<lambda>a. a)
           ((''c0ffee'', 1000) # concat (replicate 19 [(''c0ffee'', 2000), (''beef'', 2500)]))
           [(''beef'', \<lparr>count = 7, start = 900\<rparr>)])))
       = Status429
   \<and> fst (rateLimiter (\<lambda>a. a) ''c0ffee'' 61001
        (snd (serve (\<lambda>a. a)
           ((''c0ffee'', 1000) # concat (replicate 19 [(''c0ffee'', 2000), (''beef'', 2500)]))
           [(''beef'', \<lparr>count = 7, start = 900\<rparr>)])))
       = Next"
proof -
  let ?m = "[(''beef'', \<lparr>count = 7, start = 900\<rparr>)]"
  let ?reqs = "concat (replicate 19 [(''c0ffee'', 2000 :: int), (''beef'', 2500)])"
  have h1: "distinct (map fst ?m)" by simp
  have h2: "map_of ?m ''c0ffee'' = None" by simp
  have h3: "length (requests_of (\<lambda>a. a) ''c0ffee'' ?reqs) = 19"
    by code_simp
  have h4: "\<forall>(r, t) \<in> set ?reqs. t - 1000 \<le> 60000" by auto
  obtain vs m20 where b: "serve (\<lambda>a. a) ((''c0ffee'', 1000) # ?reqs) ?m = (vs, m20)"
    by (cases "serve (\<lambda>a. a) ((''c0ffee'', 1000) # ?reqs) ?m")
  from twenty_per_window [where hashIp = "\<lambda>a. a" and rawIp = "''c0ffee''" and ws = 1000,
         OF h1 disjI1 h3 h4, OF h2]
  have vs: "verdicts_for (\<lambda>a. a) ''c0ffee'' ((''c0ffee'', 1000) # ?reqs) vs = replicate 20 Next"
    and late: "\<forall>t. t - 1000 \<le> 60000 \<longrightarrow>
                 (case rateLimiter (\<lambda>a. a) ''c0ffee'' t m20 of (v21, m21) \<Rightarrow> v21 = Status429)"
    and after: "fst (rateLimiter (\<lambda>a. a) ''c0ffee'' 61001 m20) = Next"
    unfolding b by (simp_all add: case_prod_unfold)
  from late have "fst (rateLimiter (\<lambda>a. a) ''c0ffee'' 61000 m20) = Status429"
    by (simp add: case_prod_unfold)
  with vs after h1 h2 h3 h4 show ?thesis
    unfolding b by (simp add: list_all_iff)
qed


section \<open>The alert store and the service: proofs\<close>

lemma call_quiet: "quiet s \<Longrightarrow> fst (call op s) = False"
  by (auto simp: quiet_def call_def split: list.splits)

lemma quiet_call: "quiet s \<Longrightarrow> quiet (snd (call op s))"
  by (auto simp: quiet_def call_def dest: in_set_dropD)

lemma call_disk [simp]:
  "dir_exists (snd (call op s)) = dir_exists s"
  "alerts_file (snd (call op s)) = alerts_file s"
  by (simp_all add: call_def)

lemma readFileSync_eq:
  "readFileSync_ALERTS_FILE s =
     (if fst (call ReadFile s) then Inl IOError
      else case alerts_file s of None \<Rightarrow> Inl IOError | Some text \<Rightarrow> Inr text,
      snd (call ReadFile s))"
  by (cases "call ReadFile s")
     (use call_disk(2) [of ReadFile s] in \<open>auto simp: readFileSync_ALERTS_FILE_def split: option.splits bool.splits\<close>)

lemma writeFileSync_eq:
  "writeFileSync_ALERTS_FILE text s =
     (if fst (call (WriteFile text) s) \<or> \<not> dir_exists s
      then (Inl IOError, snd (call (WriteFile text) s))
      else (Inr (), (snd (call (WriteFile text) s))\<lparr>alerts_file := Some text\<rparr>))"
  by (cases "call (WriteFile text) s")
     (use call_disk(1) [of "WriteFile text" s] in \<open>auto simp: writeFileSync_ALERTS_FILE_def split: bool.splits\<close>)

lemma readAlertsSafe_eq:
  "readAlertsSafe P s =
     (Inr (if fst (call ReadFile s) then JArr []
           else case alerts_file s of
                  None \<Rightarrow> JArr []
                | Some text \<Rightarrow> (case JSON_parse P text of None \<Rightarrow> JArr [] | Some v \<Rightarrow> v)),
      snd (call ReadFile s))"
  by (simp add: readAlertsSafe_def io_catch_def io_bind_def readFileSync_eq parse_def
        io_return_def io_throw_def split: option.splits)

lemma writeAlertsSafe_eq:
  "writeAlertsSafe P alerts s =
     (if fst (call (WriteFile (JSON_stringify P alerts)) s) \<or> \<not> dir_exists s
      then (Inr False, snd (call (WriteFile (JSON_stringify P alerts)) s))
      else (Inr True,
            (snd (call (WriteFile (JSON_stringify P alerts)) s))
              \<lparr>alerts_file := Some (JSON_stringify P alerts)\<rparr>))"
  by (simp add: writeAlertsSafe_def io_catch_def io_bind_def writeFileSync_eq io_return_def)

lemma appendOne_eq:
  "appendOne P alert s =
     (case fst (readAlertsSafe P s) of
        Inr (JArr xs) \<Rightarrow> writeAlertsSafe P (JArr (xs @ [alert])) (snd (call ReadFile s))
      | _ \<Rightarrow> (Inl TypeError, snd (call ReadFile s)))"
  by (simp add: appendOne_def io_bind_def readAlertsSafe_eq io_return_def io_throw_def
        split: option.splits json.splits)


lemma quiet_update [simp]:
  "quiet (s\<lparr>io_log := l\<rparr>) = quiet s"
  "quiet (s\<lparr>dir_exists := d\<rparr>) = quiet s"
  "quiet (s\<lparr>alerts_file := f\<rparr>) = quiet s"
  by (simp_all add: quiet_def)

lemma existsSync_DATA_DIR_eq:
  "existsSync_DATA_DIR s = (Inr (dir_exists s), s\<lparr>io_log := io_log s @ [ExistsDir]\<rparr>)"
  by (simp add: existsSync_DATA_DIR_def)

lemma mkdirSync_quiet:
  "quiet s \<Longrightarrow> mkdirSync_DATA_DIR s = (Inr (), (snd (call Mkdir s))\<lparr>dir_exists := True\<rparr>)"
  using call_quiet [of s Mkdir]
  by (cases "call Mkdir s") (simp add: mkdirSync_DATA_DIR_def)

lemma writeFileSync_quiet:
  "quiet s \<Longrightarrow> dir_exists s \<Longrightarrow>
   writeFileSync_ALERTS_FILE text s =
     (Inr (), (snd (call (WriteFile text) s))\<lparr>alerts_file := Some text\<rparr>)"
  by (simp add: writeFileSync_eq call_quiet)

lemma readFileSync_quiet:
  "quiet s \<Longrightarrow> alerts_file s = Some text \<Longrightarrow>
   readFileSync_ALERTS_FILE s = (Inr text, snd (call ReadFile s))"
  by (simp add: readFileSync_eq call_quiet)

lemma ensure_dir_quiet:
  assumes "quiet s"
  shows "\<exists>s'. io_bind existsSync_DATA_DIR (\<lambda>dir. io_when (\<not> dir) mkdirSync_DATA_DIR) s = (Inr (), s')
              \<and> quiet s' \<and> dir_exists s' \<and> alerts_file s' = alerts_file s"
proof (cases "dir_exists s")
  case True
  with assms show ?thesis
    by (simp add: io_bind_def existsSync_DATA_DIR_eq io_when_def io_return_def)
next
  case False
  have q: "quiet (s\<lparr>io_log := io_log s @ [ExistsDir]\<rparr>)"
    using assms by simp
  show ?thesis
    using False quiet_call [OF q, of Mkdir]
    by (simp add: io_bind_def existsSync_DATA_DIR_eq io_when_def mkdirSync_quiet [OF q])
qed



lemma io_bind_assoc: "io_bind (io_bind m f) g = io_bind m (\<lambda>x. io_bind (f x) g)"
  by (auto simp: io_bind_def fun_eq_iff split: prod.splits sum.splits)

lemma io_bind_Inr: "m s = (Inr x, s') \<Longrightarrow> io_bind m f s = f x s'"
  by (simp add: io_bind_def)

lemma io_bind_Inl: "m s = (Inl e, s') \<Longrightarrow> io_bind m f s = (Inl e, s')"
  by (simp add: io_bind_def)

lemma io_catch_Inr: "m s = (Inr x, s') \<Longrightarrow> io_catch m h s = (Inr x, s')"
  by (simp add: io_catch_def)

lemma io_catch_Inl: "m s = (Inl e, s') \<Longrightarrow> io_catch m h s = h e s'"
  by (simp add: io_catch_def)

lemma initAlertsFile_ensure:
  "initAlertsFile P =
     io_catch
       (io_bind ensure_dir (\<lambda>_.
        io_bind existsSync_ALERTS_FILE (\<lambda>there.
        if \<not> there then writeFileSync_ALERTS_FILE ''[]''
        else
          io_bind readFileSync_ALERTS_FILE (\<lambda>content.
          io_bind (parse P content) (\<lambda>parsed.
          io_when (\<not> isArray parsed) (writeFileSync_ALERTS_FILE ''[]''))))))
       (\<lambda>err.
          io_catch
            (io_bind ensure_dir (\<lambda>_. writeFileSync_ALERTS_FILE ''[]''))
            (\<lambda>innerErr. io_return ()))"
  unfolding initAlertsFile_def ensure_dir_def io_bind_assoc ..

lemma ensure_dir_quiet':
  assumes "quiet s"
  shows "\<exists>s'. ensure_dir s = (Inr (), s') \<and> quiet s' \<and> dir_exists s' \<and> alerts_file s' = alerts_file s"
  unfolding ensure_dir_def using assms by (rule ensure_dir_quiet)


lemma initAlertsFile_quiet:
  assumes "quiet s"
  shows "\<exists>s'. initAlertsFile P s = (Inr (), s') \<and> quiet s' \<and> dir_exists s'
              \<and> alerts_file s' =
                  (case alerts_file s of
                     None \<Rightarrow> Some ''[]''
                   | Some content \<Rightarrow>
                       (case JSON_parse P content of
                          None \<Rightarrow> Some ''[]''
                        | Some v \<Rightarrow> if isArray v then Some content else Some ''[]''))"
proof -
  let ?reset = "writeFileSync_ALERTS_FILE ''[]''"
  let ?check = "\<lambda>content. io_bind (parse P content) (\<lambda>parsed. io_when (\<not> isArray parsed) ?reset)"
  let ?body = "io_bind existsSync_ALERTS_FILE (\<lambda>there.
                 if \<not> there then ?reset else io_bind readFileSync_ALERTS_FILE ?check)"
  let ?handler = "\<lambda>err :: exn. io_catch (io_bind ensure_dir (\<lambda>_. ?reset)) (\<lambda>innerErr. io_return ())"
  have init: "initAlertsFile P s = io_catch (io_bind ensure_dir (\<lambda>_. ?body)) ?handler s"
    by (simp only: initAlertsFile_ensure)
  from ensure_dir_quiet' [OF assms] obtain s1 where
    e: "ensure_dir s = (Inr (), s1)"
    and q1: "quiet s1" and d1: "dir_exists s1" and f1: "alerts_file s1 = alerts_file s"
    by blast
  let ?s2 = "s1\<lparr>io_log := io_log s1 @ [ExistsFile]\<rparr>"
  have q2: "quiet ?s2" and d2: "dir_exists ?s2" and f2: "alerts_file ?s2 = alerts_file s"
    using q1 d1 f1 by simp_all
  have x: "existsSync_ALERTS_FILE s1 = (Inr (alerts_file s \<noteq> None), ?s2)"
    by (simp add: existsSync_ALERTS_FILE_def f1)
  have reset: "\<exists>t'. ?reset t = (Inr (), t') \<and> quiet t' \<and> dir_exists t' \<and> alerts_file t' = Some ''[]''"
    if "quiet t" "dir_exists t" for t
    using that quiet_call [OF that(1), of "WriteFile ''[]''"]
    by (simp add: writeFileSync_quiet)
  show ?thesis
  proof (cases "alerts_file s")
    case None
    from reset [OF q2 d2] obtain s' where
      w: "?reset ?s2 = (Inr (), s')" and p: "quiet s'" "dir_exists s'" "alerts_file s' = Some ''[]''"
      by blast
    have "?body s1 = (Inr (), s')"
      using None w by (simp add: io_bind_Inr [where m = existsSync_ALERTS_FILE, OF x])
    then have "initAlertsFile P s = (Inr (), s')"
      by (simp only: init io_bind_Inr [where m = ensure_dir, OF e] io_catch_Inr)
    with p None show ?thesis by simp
  next
    case (Some content)
    let ?s3 = "snd (call ReadFile ?s2)"
    have q3: "quiet ?s3" and d3: "dir_exists ?s3" and f3: "alerts_file ?s3 = Some content"
      using quiet_call [OF q2] d2 f2 Some by simp_all
    have r: "readFileSync_ALERTS_FILE ?s2 = (Inr content, ?s3)"
      using f2 Some by (intro readFileSync_quiet q2) simp
    have body: "?body s1 = ?check content ?s3"
      using Some by (simp add: io_bind_Inr [where m = existsSync_ALERTS_FILE, OF x] io_bind_Inr [where m = readFileSync_ALERTS_FILE, OF r])
    show ?thesis
    proof (cases "JSON_parse P content")
      case None
      have "parse P content ?s3 = (Inl SyntaxError, ?s3)"
        using None by (simp add: parse_def io_throw_def)
      then have "?body s1 = (Inl SyntaxError, ?s3)"
        by (simp only: body io_bind_Inl)
      then have thrown: "initAlertsFile P s = ?handler SyntaxError ?s3"
        by (simp only: init io_bind_Inr [where m = ensure_dir, OF e] io_catch_Inl)
      from ensure_dir_quiet' [OF q3] obtain s4 where
        e4: "ensure_dir ?s3 = (Inr (), s4)" and q4: "quiet s4" and d4: "dir_exists s4"
        by blast
      from reset [OF q4 d4] obtain s' where
        w: "?reset s4 = (Inr (), s')" and p: "quiet s'" "dir_exists s'" "alerts_file s' = Some ''[]''"
        by blast
      have "io_bind ensure_dir (\<lambda>_. ?reset) ?s3 = (Inr (), s')"
        by (simp only: io_bind_Inr [where m = ensure_dir, OF e4] w)
      then have "initAlertsFile P s = (Inr (), s')"
        by (simp only: thrown io_catch_Inr)
      with p None Some show ?thesis by simp
    next
      case (Some v)
      have pv: "parse P content ?s3 = (Inr v, ?s3)"
        using Some by (simp add: parse_def io_return_def)
      show ?thesis
      proof (cases "isArray v")
        case True
        have "?body s1 = (Inr (), ?s3)"
          using True by (simp add: body io_bind_Inr [where m = "parse P content", OF pv] io_when_def io_return_def)
        then have "initAlertsFile P s = (Inr (), ?s3)"
          by (simp only: init io_bind_Inr [where m = ensure_dir, OF e] io_catch_Inr)
        with q3 d3 f3 True Some \<open>alerts_file s = Some content\<close> show ?thesis by simp
      next
        case False
        from reset [OF q3 d3] obtain s' where
          w: "?reset ?s3 = (Inr (), s')" and p: "quiet s'" "dir_exists s'" "alerts_file s' = Some ''[]''"
          by blast
        have "?body s1 = (Inr (), s')"
          using False w by (simp add: body io_bind_Inr [where m = "parse P content", OF pv] io_when_def)
        then have "initAlertsFile P s = (Inr (), s')"
          by (simp only: init io_bind_Inr [where m = ensure_dir, OF e] io_catch_Inr)
        with p False Some \<open>alerts_file s = Some content\<close> show ?thesis by simp
      qed
    qed
  qed
qed

text \<open>
  C8. \<^verbatim>\<open>readAlertsSafe\<close> never throws, whatever the state of the file system: it always
  returns a value, and that value is the empty array when \<^verbatim>\<open>readFileSync\<close> throws (the
  file is missing, or the read fails) and when \<^verbatim>\<open>JSON.parse\<close> throws on what was read;
  otherwise it is the parsed value. \<^verbatim>\<open>GET /api/alerts\<close> answers with that value.
\<close>

theorem readAlertsSafe_never_throws:
  "(\<exists>v s'. readAlertsSafe P s = (Inr v, s'))
   \<and> (case readFileSync_ALERTS_FILE s of
         (Inl e, s') \<Rightarrow> readAlertsSafe P s = (Inr (JArr []), s')
       | (Inr data, s') \<Rightarrow>
           (case JSON_parse P data of
              None \<Rightarrow> readAlertsSafe P s = (Inr (JArr []), s')
            | Some v \<Rightarrow> readAlertsSafe P s = (Inr v, s')))
   \<and> get_alerts P s = readAlertsSafe P s"
  by (simp add: readAlertsSafe_eq readFileSync_eq get_alerts_def split: option.splits)

text \<open>
  C6. Corruption recovery. The file holds text that \<^verbatim>\<open>JSON.parse\<close> rejects, or the text of
  a JSON value that is not an array, and no call to the file system fails. Then
  \<^verbatim>\<open>initAlertsFile\<close> returns, \<^verbatim>\<open>readAlertsSafe\<close> after it gives the empty array, appending
  a record \<open>r\<close> after that succeeds, and reading again gives the one-element array
  \<open>[r]\<close>. What is assumed of the platform: \<^verbatim>\<open>JSON.parse('[]')\<close> is the empty array, and
  \<^verbatim>\<open>JSON.parse\<close> reads the text \<^verbatim>\<open>JSON.stringify\<close> prints for \<open>[r]\<close> back as \<open>[r]\<close>.
\<close>

theorem corruption_recovery:
  assumes "quiet s" and "alerts_file s = Some content"
    and "JSON_parse P content = None \<or> (\<exists>v. JSON_parse P content = Some v \<and> \<not> isArray v)"
    and "JSON_parse P ''[]'' = Some (JArr [])"
    and "JSON_parse P (JSON_stringify P (JArr [r])) = Some (JArr [r])"
  shows "case initAlertsFile P s of (i, s1) \<Rightarrow>
           i = Inr () \<and>
           (case readAlertsSafe P s1 of (v, s2) \<Rightarrow>
              v = Inr (JArr []) \<and>
              (case appendOne P r s2 of (ok, s3) \<Rightarrow>
                 ok = Inr True \<and> fst (readAlertsSafe P s3) = Inr (JArr [r])))"
proof -
  from initAlertsFile_quiet [OF assms(1), of P] assms(2,3) obtain s1 where
    i: "initAlertsFile P s = (Inr (), s1)" and q1: "quiet s1" and d1: "dir_exists s1"
    and f1: "alerts_file s1 = Some ''[]''"
    by auto
  let ?s2 = "snd (call ReadFile s1)"
  have r1: "readAlertsSafe P s1 = (Inr (JArr []), ?s2)"
    using q1 f1 assms(4) by (simp add: readAlertsSafe_eq call_quiet)
  have q2: "quiet ?s2" and d2: "dir_exists ?s2" and f2: "alerts_file ?s2 = Some ''[]''"
    using quiet_call [OF q1] d1 f1 by simp_all
  let ?s3 = "snd (call ReadFile ?s2)"
  have q3: "quiet ?s3" and d3: "dir_exists ?s3"
    using quiet_call [OF q2] d2 by simp_all
  let ?text = "JSON_stringify P (JArr [r])"
  let ?s4 = "(snd (call (WriteFile ?text) ?s3))\<lparr>alerts_file := Some ?text\<rparr>"
  have a: "appendOne P r ?s2 = (Inr True, ?s4)"
    using q2 f2 assms(4) q3 d3
    by (simp add: appendOne_eq readAlertsSafe_eq writeAlertsSafe_eq call_quiet)
  have q4: "quiet ?s4"
    using quiet_call [OF q3] by simp
  have "fst (readAlertsSafe P ?s4) = Inr (JArr [r])"
    using q4 assms(5) by (simp add: readAlertsSafe_eq call_quiet)
  with i r1 a show ?thesis
    by simp
qed

text \<open>
  C7, as amended. The store reads as an array \<open>xs\<close> (the file holds the text of a JSON
  array, or it cannot be read or parsed and \<open>xs\<close> is empty), the directory exists and no
  call to the file system fails. Then appending \<open>r\<close> returns \<open>true\<close>, the file holds
  the text of \<open>xs\<close> followed by \<open>r\<close>, and reading it gives that array, whose last element
  is \<open>r\<close>, provided \<^verbatim>\<open>JSON.parse\<close> reads the text written back as the array written.
\<close>

theorem append_then_read:
  assumes "quiet s" and "dir_exists s"
    and "fst (readAlertsSafe P s) = Inr (JArr xs)"
    and "JSON_parse P (JSON_stringify P (JArr (xs @ [r]))) = Some (JArr (xs @ [r]))"
  shows "case appendOne P r s of (ok, s') \<Rightarrow>
           ok = Inr True
         \<and> alerts_file s' = Some (JSON_stringify P (JArr (xs @ [r])))
         \<and> fst (readAlertsSafe P s') = Inr (JArr (xs @ [r]))
         \<and> last (xs @ [r]) = r"
proof -
  let ?s1 = "snd (call ReadFile s)"
  have q1: "quiet ?s1" and d1: "dir_exists ?s1"
    using quiet_call [OF assms(1)] assms(2) by simp_all
  let ?text = "JSON_stringify P (JArr (xs @ [r]))"
  let ?s2 = "(snd (call (WriteFile ?text) ?s1))\<lparr>alerts_file := Some ?text\<rparr>"
  have a: "appendOne P r s = (Inr True, ?s2)"
    using assms(3) q1 d1 by (simp add: appendOne_eq writeAlertsSafe_eq call_quiet)
  have "quiet ?s2"
    using quiet_call [OF q1] by simp
  then have "fst (readAlertsSafe P ?s2) = Inr (JArr (xs @ [r]))"
    using assms(4) by (simp add: readAlertsSafe_eq call_quiet)
  with a show ?thesis
    by simp
qed



lemma appendOne_disk:
  "appendOne P r s = (res, s') \<Longrightarrow>
   (res = Inr True \<and> (\<exists>xs. fst (readAlertsSafe P s) = Inr (JArr xs)
        \<and> alerts_file s' = Some (JSON_stringify P (JArr (xs @ [r])))))
   \<or> (res \<noteq> Inr True \<and> alerts_file s' = alerts_file s)"
  by (auto simp: appendOne_eq writeAlertsSafe_eq readAlertsSafe_eq
        split: sum.splits json.splits if_splits option.splits)

lemma handler_valid:
  assumes "typeof_string (map_of props ''type'')" "typeof_string (map_of props ''message'')"
    and "includes_val allowedSeverities (map_of props ''severity'')"
  shows "post_alert_handler P stamp (JObj props) s =
           (case appendOne P (JObj (AList.update ''time'' (JStr stamp) props)) s of
              (Inl e, s') \<Rightarrow> (Inl e, s')
            | (Inr ok, s') \<Rightarrow> (Inr (if ok then AlertSaved else SaveFailed), s'))"
  using assms
  by (simp add: post_alert_handler_def io_bind_def io_return_def split: prod.splits sum.splits)

lemma handler_invalid:
  assumes "case alert of
             JObj props \<Rightarrow> \<not> typeof_string (map_of props ''type'')
                          \<or> \<not> typeof_string (map_of props ''message'')
                          \<or> \<not> includes_val allowedSeverities (map_of props ''severity'')
           | JNull \<Rightarrow> False
           | _ \<Rightarrow> True"
  shows "post_alert_handler P stamp alert s = (Inr InvalidAlert, s)"
  using assms by (cases alert) (auto simp: post_alert_handler_def io_return_def)

lemma handler_saved:
  assumes "post_alert_handler P stamp alert s = (res, s')"
  shows "(res = Inr AlertSaved \<and>
            (\<exists>props xs. alert = JObj props
               \<and> typeof_string (map_of props ''type'') \<and> typeof_string (map_of props ''message'')
               \<and> includes_val allowedSeverities (map_of props ''severity'')
               \<and> fst (readAlertsSafe P s) = Inr (JArr xs)
               \<and> alerts_file s' =
                   Some (JSON_stringify P (JArr (xs @ [JObj (AList.update ''time'' (JStr stamp) props)])))))
         \<or> (res \<noteq> Inr AlertSaved \<and> alerts_file s' = alerts_file s)"
proof (cases alert)
  case (JObj props)
  show ?thesis
  proof (cases "typeof_string (map_of props ''type'') \<and> typeof_string (map_of props ''message'')
                \<and> includes_val allowedSeverities (map_of props ''severity'')")
    case True
    obtain r t where a: "appendOne P (JObj (AList.update ''time'' (JStr stamp) props)) s = (r, t)"
      by (cases "appendOne P (JObj (AList.update ''time'' (JStr stamp) props)) s")
    from appendOne_disk [OF a] True a assms JObj show ?thesis
      by (auto simp: handler_valid split: sum.splits if_splits)
  next
    case False
    then have "post_alert_handler P stamp alert s = (Inr InvalidAlert, s)"
      unfolding JObj by (intro handler_invalid) auto
    with assms show ?thesis by auto
  qed
qed (use assms in \<open>auto simp: post_alert_handler_def io_return_def io_throw_def\<close>)

lemma update_absent:
  "map_of al k = None \<Longrightarrow> AList.update k v al = al @ [(k, v)]"
  by (induction al) (auto split: if_splits)


lemma typeof_string_iff: "typeof_string x \<longleftrightarrow> (\<exists>t. x = Some (JStr t))"
  by (cases x rule: typeof_string.cases) simp_all

lemma includes_allowed_iff:
  "includes_val allowedSeverities x \<longleftrightarrow>
     x = Some (JStr ''LOW'') \<or> x = Some (JStr ''MEDIUM'') \<or> x = Some (JStr ''HIGH'')"
  by (cases x) (auto simp: allowedSeverities_def)

lemma post_alert_denied:
  "fst (rateLimiter hashIp rawIp now (rate_limit_map srv)) = Status429 \<Longrightarrow>
   post_alert P hashIp rawIp now stamp body srv =
     (TooManyRequests, srv\<lparr>rate_limit_map := snd (rateLimiter hashIp rawIp now (rate_limit_map srv))\<rparr>)"
  by (cases "rateLimiter hashIp rawIp now (rate_limit_map srv)") (simp add: post_alert_def)

lemma post_alert_admitted:
  "fst (rateLimiter hashIp rawIp now (rate_limit_map srv)) = Next \<Longrightarrow>
   post_alert P hashIp rawIp now stamp body srv =
     (case post_alert_handler P stamp body (disk srv) of
        (Inl e, d) \<Rightarrow>
          (Uncaught e,
           \<lparr>rate_limit_map = snd (rateLimiter hashIp rawIp now (rate_limit_map srv)), disk = d\<rparr>)
      | (Inr r, d) \<Rightarrow>
          (r, \<lparr>rate_limit_map = snd (rateLimiter hashIp rawIp now (rate_limit_map srv)), disk = d\<rparr>))"
  by (cases "rateLimiter hashIp rawIp now (rate_limit_map srv)";
      cases "post_alert_handler P stamp body (disk srv)")
     (auto simp: post_alert_def split: sum.splits)

text \<open>
  C5, as amended. The body is a JSON object whose \<^verbatim>\<open>type\<close> or \<^verbatim>\<open>message\<close> is not a
  string or whose \<^verbatim>\<open>severity\<close> is not one of \<^verbatim>\<open>LOW\<close>, \<^verbatim>\<open>MEDIUM\<close>, \<^verbatim>\<open>HIGH\<close>, or it is an
  array or a primitive value other than \<^verbatim>\<open>null\<close> (which has no such property). If the
  limiter lets the request through the answer is 400, and if not it is 429; either way
  the file system is exactly as before: no file is read or written, no call is logged.
\<close>

theorem invalid_submission:
  assumes "case body of
             JObj props \<Rightarrow> \<not> typeof_string (map_of props ''type'')
                          \<or> \<not> typeof_string (map_of props ''message'')
                          \<or> \<not> includes_val allowedSeverities (map_of props ''severity'')
           | JNull \<Rightarrow> False
           | _ \<Rightarrow> True"
  shows "case post_alert P hashIp rawIp now stamp body srv of (res, srv') \<Rightarrow>
           disk srv' = disk srv
         \<and> res = (if fst (rateLimiter hashIp rawIp now (rate_limit_map srv)) = Next
                  then InvalidAlert else TooManyRequests)"
proof (cases "fst (rateLimiter hashIp rawIp now (rate_limit_map srv))")
  case Next
  then show ?thesis
    by (simp add: post_alert_admitted handler_invalid [OF assms])
next
  case Status429
  then show ?thesis
    by (simp add: post_alert_denied)
qed

lemma post_alert_saved:
  assumes "post_alert P hashIp rawIp now stamp body srv = (AlertSaved, srv')"
  shows "\<exists>props xs. body = JObj props
           \<and> typeof_string (map_of props ''type'') \<and> typeof_string (map_of props ''message'')
           \<and> includes_val allowedSeverities (map_of props ''severity'')
           \<and> fst (readAlertsSafe P (disk srv)) = Inr (JArr xs)
           \<and> alerts_file (disk srv') =
               Some (JSON_stringify P (JArr (xs @ [JObj (AList.update ''time'' (JStr stamp) props)])))"
proof (cases "fst (rateLimiter hashIp rawIp now (rate_limit_map srv))")
  case Status429
  with assms show ?thesis
    by (simp add: post_alert_denied)
next
  case Next
  obtain r d where h: "post_alert_handler P stamp body (disk srv) = (r, d)"
    by (cases "post_alert_handler P stamp body (disk srv)")
  have "r = Inr AlertSaved" and "disk srv' = d"
    using assms h by (auto simp: post_alert_admitted [OF Next] split: sum.splits)
  with handler_saved [OF h] show ?thesis
    by auto
qed

lemma post_alert_unsaved:
  assumes "post_alert P hashIp rawIp now stamp body srv = (res, srv')" and "res \<noteq> AlertSaved"
  shows "alerts_file (disk srv') = alerts_file (disk srv)"
proof (cases "fst (rateLimiter hashIp rawIp now (rate_limit_map srv))")
  case Status429
  with assms show ?thesis
    by (auto simp: post_alert_denied)
next
  case Next
  obtain r d where h: "post_alert_handler P stamp body (disk srv) = (r, d)"
    by (cases "post_alert_handler P stamp body (disk srv)")
  have "r \<noteq> Inr AlertSaved" and "disk srv' = d"
    using assms h by (auto simp: post_alert_admitted [OF Next] split: sum.splits)
  with handler_saved [OF h] show ?thesis
    by auto
qed

lemma post_alert_valid:
  assumes "typeof_string (map_of props ''type'')" "typeof_string (map_of props ''message'')"
    and "includes_val allowedSeverities (map_of props ''severity'')"
    and "fst (rateLimiter hashIp rawIp now (rate_limit_map srv)) = Next"
    and "quiet (disk srv)" "dir_exists (disk srv)"
    and "fst (readAlertsSafe P (disk srv)) = Inr (JArr xs)"
  shows "fst (post_alert P hashIp rawIp now stamp (JObj props) srv) = AlertSaved
       \<and> alerts_file (disk (snd (post_alert P hashIp rawIp now stamp (JObj props) srv))) =
           Some (JSON_stringify P (JArr (xs @ [JObj (AList.update ''time'' (JStr stamp) props)])))"
proof -
  let ?r = "JObj (AList.update ''time'' (JStr stamp) props)"
  let ?s1 = "snd (call ReadFile (disk srv))"
  have q1: "quiet ?s1" and d1: "dir_exists ?s1"
    using quiet_call [OF assms(5)] assms(6) by simp_all
  have "fst (appendOne P ?r (disk srv)) = Inr True
      \<and> alerts_file (snd (appendOne P ?r (disk srv))) = Some (JSON_stringify P (JArr (xs @ [?r])))"
    using assms(7) q1 d1 by (simp add: appendOne_eq writeAlertsSafe_eq call_quiet)
  then have "fst (post_alert_handler P stamp (JObj props) (disk srv)) = Inr AlertSaved
      \<and> alerts_file (snd (post_alert_handler P stamp (JObj props) (disk srv)))
          = Some (JSON_stringify P (JArr (xs @ [?r])))"
    by (cases "appendOne P ?r (disk srv)") (simp add: handler_valid [OF assms(1-3)])
  then show ?thesis
    by (cases "post_alert_handler P stamp (JObj props) (disk srv)")
       (simp add: post_alert_admitted [OF assms(4)])
qed

text \<open>
  C1, as amended. Whenever \<^verbatim>\<open>POST /api/alert\<close> answers \<^verbatim>\<open>alert saved\<close>, the file holds the
  text of the array read before, followed by one record whose \<^verbatim>\<open>type\<close> and \<^verbatim>\<open>message\<close>
  are strings (the empty string included), whose \<^verbatim>\<open>severity\<close> is one of \<^verbatim>\<open>LOW\<close>,
  \<^verbatim>\<open>MEDIUM\<close>, \<^verbatim>\<open>HIGH\<close>, and whose \<^verbatim>\<open>time\<close> is the server's stamp. With any other
  answer the file holds what it held.
\<close>

theorem persisted_record_shape:
  assumes "post_alert P hashIp rawIp now stamp body srv = (res, srv')"
  shows "if res = AlertSaved
         then \<exists>xs ps t msg.
                fst (readAlertsSafe P (disk srv)) = Inr (JArr xs)
              \<and> alerts_file (disk srv') = Some (JSON_stringify P (JArr (xs @ [JObj ps])))
              \<and> map_of ps ''type'' = Some (JStr t)
              \<and> map_of ps ''message'' = Some (JStr msg)
              \<and> (map_of ps ''severity'' = Some (JStr ''LOW'')
                 \<or> map_of ps ''severity'' = Some (JStr ''MEDIUM'')
                 \<or> map_of ps ''severity'' = Some (JStr ''HIGH''))
              \<and> map_of ps ''time'' = Some (JStr stamp)
         else alerts_file (disk srv') = alerts_file (disk srv)"
proof (cases "res = AlertSaved")
  case False
  with post_alert_unsaved [OF assms] show ?thesis
    by simp
next
  case True
  with assms have "post_alert P hashIp rawIp now stamp body srv = (AlertSaved, srv')"
    by simp
  from post_alert_saved [OF this] obtain props xs where
    v: "typeof_string (map_of props ''type'')" "typeof_string (map_of props ''message'')"
      "includes_val allowedSeverities (map_of props ''severity'')"
    and x: "fst (readAlertsSafe P (disk srv)) = Inr (JArr xs)"
    and f: "alerts_file (disk srv') =
              Some (JSON_stringify P (JArr (xs @ [JObj (AList.update ''time'' (JStr stamp) props)])))"
    by blast
  let ?ps = "AList.update ''time'' (JStr stamp) props"
  from v obtain t msg where "map_of ?ps ''type'' = Some (JStr t)" "map_of ?ps ''message'' = Some (JStr msg)"
    by (auto simp: typeof_string_iff update_conv')
  moreover have "map_of ?ps ''severity'' = Some (JStr ''LOW'')
               \<or> map_of ?ps ''severity'' = Some (JStr ''MEDIUM'')
               \<or> map_of ?ps ''severity'' = Some (JStr ''HIGH'')"
    using v(3) by (simp add: includes_allowed_iff update_conv')
  moreover have "map_of ?ps ''time'' = Some (JStr stamp)"
    by (simp add: update_conv')
  ultimately show ?thesis
    using True x f by auto
qed

text \<open>
  C10, as amended. A valid body is persisted when the limiter lets the request through,
  the store reads as an array and no call to the file system fails: the answer is then
  \<^verbatim>\<open>alert saved\<close>. And whenever \<^verbatim>\<open>POST /api/alert\<close> answers \<^verbatim>\<open>alert saved\<close>, the body is an
  object and the file holds the text of the array read before, followed by the whole
  body: every property of it with its value and in its place, except that \<^verbatim>\<open>time\<close>
  holds the server's stamp, in the place of the client's \<^verbatim>\<open>time\<close> if the body had one
  and as a new last property if not.
\<close>

theorem whole_body_persisted:
  "(\<forall>srv'. post_alert P hashIp rawIp now stamp body srv = (AlertSaved, srv') \<longrightarrow>
      (\<exists>props xs. body = JObj props
         \<and> fst (readAlertsSafe P (disk srv)) = Inr (JArr xs)
         \<and> alerts_file (disk srv') =
             Some (JSON_stringify P (JArr (xs @ [JObj (AList.update ''time'' (JStr stamp) props)])))))
   \<and> (typeof_string (map_of props ''type'') \<and> typeof_string (map_of props ''message'')
        \<and> includes_val allowedSeverities (map_of props ''severity'')
        \<and> fst (rateLimiter hashIp rawIp now (rate_limit_map srv)) = Next
        \<and> quiet (disk srv) \<and> dir_exists (disk srv)
        \<and> fst (readAlertsSafe P (disk srv)) = Inr (JArr xs) \<longrightarrow>
      fst (post_alert P hashIp rawIp now stamp (JObj props) srv) = AlertSaved
      \<and> alerts_file (disk (snd (post_alert P hashIp rawIp now stamp (JObj props) srv))) =
          Some (JSON_stringify P (JArr (xs @ [JObj (AList.update ''time'' (JStr stamp) props)]))))
   \<and> map_of (AList.update ''time'' (JStr stamp) props) = (map_of props)(''time'' \<mapsto> JStr stamp)
   \<and> map fst (AList.update ''time'' (JStr stamp) props) =
        (if ''time'' \<in> set (map fst props) then map fst props else map fst props @ [''time''])
   \<and> (map_of props ''time'' = None \<longrightarrow>
        AList.update ''time'' (JStr stamp) props = props @ [(''time'', JStr stamp)])"
proof (intro conjI allI impI)
  fix srv'
  assume "post_alert P hashIp rawIp now stamp body srv = (AlertSaved, srv')"
  from post_alert_saved [OF this]
  show "\<exists>props xs. body = JObj props
         \<and> fst (readAlertsSafe P (disk srv)) = Inr (JArr xs)
         \<and> alerts_file (disk srv') =
             Some (JSON_stringify P (JArr (xs @ [JObj (AList.update ''time'' (JStr stamp) props)])))"
    by blast
next
  assume a: "typeof_string (map_of props ''type'') \<and> typeof_string (map_of props ''message'')
        \<and> includes_val allowedSeverities (map_of props ''severity'')
        \<and> fst (rateLimiter hashIp rawIp now (rate_limit_map srv)) = Next
        \<and> quiet (disk srv) \<and> dir_exists (disk srv)
        \<and> fst (readAlertsSafe P (disk srv)) = Inr (JArr xs)"
  then have v: "fst (post_alert P hashIp rawIp now stamp (JObj props) srv) = AlertSaved
      \<and> alerts_file (disk (snd (post_alert P hashIp rawIp now stamp (JObj props) srv))) =
          Some (JSON_stringify P (JArr (xs @ [JObj (AList.update ''time'' (JStr stamp) props)])))"
    by (intro post_alert_valid) simp_all
  from v show "fst (post_alert P hashIp rawIp now stamp (JObj props) srv) = AlertSaved" ..
  from v show "alerts_file (disk (snd (post_alert P hashIp rawIp now stamp (JObj props) srv))) =
          Some (JSON_stringify P (JArr (xs @ [JObj (AList.update ''time'' (JStr stamp) props)])))" ..
next
  show "map_of (AList.update ''time'' (JStr stamp) props) = (map_of props)(''time'' \<mapsto> JStr stamp)"
    by (simp add: update_conv')
  show "map fst (AList.update ''time'' (JStr stamp) props) =
        (if ''time'' \<in> set (map fst props) then map fst props else map fst props @ [''time''])"
    by (simp add: update_keys)
next
  assume "map_of props ''time'' = None"
  then show "AList.update ''time'' (JStr stamp) props = props @ [(''time'', JStr stamp)]"
    by (rule update_absent)
qed

section \<open>Runs on concrete files\<close>

lemma parse_empty_object: "json_parse ''{}'' = Some (JObj [])"
  by code_simp

lemma parse_empty_array: "json_parse ''[]'' = Some (JArr [])"
  by code_simp

lemma parse_garbage: "json_parse ''not json'' = None"
  by code_simp

lemma parse_port_scan:
  "json_parse (json_stringify (JArr [JObj (port_scan @ [(''time'', JStr ''2026-01-01T00:00:00.000Z'')])]))
     = Some (JArr [JObj (port_scan @ [(''time'', JStr ''2026-01-01T00:00:00.000Z'')])])"
  by code_simp

lemma node_simps [simp]: "JSON_parse node = json_parse" "JSON_stringify node = json_stringify"
  by (simp_all add: node_def)

lemma disk_with_simps [simp]:
  "quiet (disk_with text)" "dir_exists (disk_with text)" "alerts_file (disk_with text) = Some text"
  "faults (disk_with text) = []" "io_log (disk_with text) = []"
  by (simp_all add: disk_with_def quiet_def)

theorem readAlertsSafe_never_throws_witness:
  "fst (readAlertsSafe node (disk_with ''not json'')) = Inr (JArr [])
   \<and> fst (readAlertsSafe node \<lparr>dir_exists = True, alerts_file = None, faults = [], io_log = []\<rparr>) = Inr (JArr [])
   \<and> fst (readAlertsSafe node \<lparr>dir_exists = True, alerts_file = Some ''[]'', faults = [True], io_log = []\<rparr>) = Inr (JArr [])
   \<and> fst (readAlertsSafe node (disk_with ''{}'')) = Inr (JObj [])"
  using readAlertsSafe_never_throws [of node "disk_with ''not json''"]
    readAlertsSafe_never_throws [of node "\<lparr>dir_exists = True, alerts_file = None, faults = [], io_log = []\<rparr>"]
    readAlertsSafe_never_throws [of node "\<lparr>dir_exists = True, alerts_file = Some ''[]'', faults = [True], io_log = []\<rparr>"]
    readAlertsSafe_never_throws [of node "disk_with ''{}''"]
  by (simp add: readFileSync_eq call_def parse_garbage parse_empty_object split: prod.splits)


theorem corruption_recovery_witness:
  "quiet (disk_with ''{}'')
   \<and> JSON_parse node ''{}'' = Some (JObj []) \<and> \<not> isArray (JObj [])
   \<and> fst (initAlertsFile node (disk_with ''{}'')) = Inr ()
   \<and> alerts_file (snd (initAlertsFile node (disk_with ''{}''))) = Some ''[]''
   \<and> fst (readAlertsSafe node (snd (initAlertsFile node (disk_with ''{}'')))) = Inr (JArr [])
   \<and> fst (appendOne node (JObj (port_scan @ [(''time'', JStr ''2026-01-01T00:00:00.000Z'')]))
        (snd (readAlertsSafe node (snd (initAlertsFile node (disk_with ''{}''))))))
       = Inr True
   \<and> fst (readAlertsSafe node
        (snd (appendOne node (JObj (port_scan @ [(''time'', JStr ''2026-01-01T00:00:00.000Z'')]))
          (snd (readAlertsSafe node (snd (initAlertsFile node (disk_with ''{}''))))))))
       = Inr (JArr [JObj (port_scan @ [(''time'', JStr ''2026-01-01T00:00:00.000Z'')])])"
proof -
  let ?r = "JObj (port_scan @ [(''time'', JStr ''2026-01-01T00:00:00.000Z'')])"
  have h1: "quiet (disk_with ''{}'')" and h2: "alerts_file (disk_with ''{}'') = Some ''{}''"
    by simp_all
  have h3: "JSON_parse node ''{}'' = None
            \<or> (\<exists>v. JSON_parse node ''{}'' = Some v \<and> \<not> isArray v)"
    by (simp add: parse_empty_object)
  have h4: "JSON_parse node ''[]'' = Some (JArr [])"
    by (simp add: parse_empty_array)
  have h5: "JSON_parse node (JSON_stringify node (JArr [?r])) = Some (JArr [?r])"
    by (simp add: parse_port_scan)
  have f: "alerts_file (snd (initAlertsFile node (disk_with ''{}''))) = Some ''[]''"
    using initAlertsFile_quiet [OF h1, of node] by (auto simp: parse_empty_object)
  from corruption_recovery [OF h1 h2 h3 h4 h5] f h1 show ?thesis
    by (simp add: case_prod_unfold parse_empty_object)
qed

theorem append_then_read_witness:
  "quiet (disk_with ''[]'') \<and> dir_exists (disk_with ''[]'')
   \<and> fst (readAlertsSafe node (disk_with ''[]'')) = Inr (JArr [])
   \<and> fst (appendOne node (JObj (port_scan @ [(''time'', JStr ''2026-01-01T00:00:00.000Z'')]))
        (disk_with ''[]'')) = Inr True
   \<and> fst (readAlertsSafe node
        (snd (appendOne node (JObj (port_scan @ [(''time'', JStr ''2026-01-01T00:00:00.000Z'')]))
          (disk_with ''[]''))))
       = Inr (JArr [JObj (port_scan @ [(''time'', JStr ''2026-01-01T00:00:00.000Z'')])])"
proof -
  let ?r = "JObj (port_scan @ [(''time'', JStr ''2026-01-01T00:00:00.000Z'')])"
  have h1: "quiet (disk_with ''[]'')" and h2: "dir_exists (disk_with ''[]'')"
    by simp_all
  have h3: "fst (readAlertsSafe node (disk_with ''[]'')) = Inr (JArr [])"
    by (simp add: readAlertsSafe_eq call_def parse_empty_array)
  have h4: "JSON_parse node (JSON_stringify node (JArr ([] @ [?r]))) = Some (JArr ([] @ [?r]))"
    by (simp add: parse_port_scan)
  from append_then_read [OF h1 h2 h3 h4] h1 h2 h3 show ?thesis
    by (simp add: case_prod_unfold)
qed

text \<open>
  What C7 says of every store content fails on the file \<^verbatim>\<open>{}\<close>: the handler's
  \<^verbatim>\<open>push\<close> throws, nothing is written, and the store still reads as the object.
\<close>

theorem append_on_object_counterexample:
  "fst (appendOne node (JObj (port_scan @ [(''time'', JStr ''2026-01-01T00:00:00.000Z'')]))
        (disk_with ''{}'')) = Inl TypeError
   \<and> alerts_file (snd (appendOne node (JObj (port_scan @ [(''time'', JStr ''2026-01-01T00:00:00.000Z'')]))
        (disk_with ''{}''))) = Some ''{}''
   \<and> fst (readAlertsSafe node
        (snd (appendOne node (JObj (port_scan @ [(''time'', JStr ''2026-01-01T00:00:00.000Z'')]))
          (disk_with ''{}'')))) = Inr (JObj [])"
  by (simp add: appendOne_eq readAlertsSafe_eq call_def parse_empty_object)


lemma table_after_twenty:
  "snd (serve (\<lambda>a. a) (replicate 20 (''c0ffee'', 0)) []) = [(''c0ffee'', \<lparr>count = 20, start = 0\<rparr>)]"
  by code_simp

lemma init_with_failing_resets:
  "snd (initAlertsFile node \<lparr>dir_exists = True, alerts_file = Some ''{}'', faults = [False, True, True], io_log = []\<rparr>)
   = \<lparr>dir_exists = True, alerts_file = Some ''{}'', faults = [],
      io_log = [ExistsDir, ExistsFile, ReadFile, WriteFile ''[]'', ExistsDir, WriteFile ''[]'']\<rparr>"
  by (simp add: initAlertsFile_def io_catch_def io_bind_def io_when_def io_return_def io_throw_def
        existsSync_DATA_DIR_def existsSync_ALERTS_FILE_def readFileSync_ALERTS_FILE_def
        writeFileSync_ALERTS_FILE_def mkdirSync_DATA_DIR_def call_def parse_def parse_empty_object)

text \<open>
  What C5 says of every submission fails on the twenty-first of a minute: an invalid
  body from a client whose twenty requests were at clock value 0 gets 429 at 1000.
\<close>

theorem too_many_invalid_counterexample:
  "post_alert node (\<lambda>a. a) ''c0ffee'' 1000 ''2026-01-01T00:00:01.000Z''
     (JObj [(''type'', JStr ''port-scan''), (''message'', JStr ''5 ports probed''),
            (''severity'', JStr ''CRITICAL'')])
     \<lparr>rate_limit_map = snd (serve (\<lambda>a. a) (replicate 20 (''c0ffee'', 0)) []), disk = disk_with ''[]''\<rparr>
   = (TooManyRequests,
      \<lparr>rate_limit_map = [(''c0ffee'', \<lparr>count = 20, start = 0\<rparr>)], disk = disk_with ''[]''\<rparr>)"
  by (simp add: table_after_twenty post_alert_def rateLimiter_def cleanupRateLimitMap_def
        cleanup_step_def RATE_LIMIT_WINDOW_MS_def MAX_REQUESTS_PER_WINDOW_def)

theorem invalid_submission_witness:
  "post_alert node (\<lambda>a. a) ''c0ffee'' 1000 ''2026-01-01T00:00:01.000Z''
     (JObj [(''type'', JStr ''port-scan''), (''message'', JStr ''5 ports probed''),
            (''severity'', JStr ''CRITICAL'')])
     \<lparr>rate_limit_map = [], disk = disk_with ''[]''\<rparr>
   = (InvalidAlert,
      \<lparr>rate_limit_map = [(''c0ffee'', \<lparr>count = 1, start = 1000\<rparr>)], disk = disk_with ''[]''\<rparr>)
   \<and> fst (post_alert node (\<lambda>a. a) ''c0ffee'' 1000 ''2026-01-01T00:00:01.000Z''
          (JArr [JStr ''port-scan''])
          \<lparr>rate_limit_map = [], disk = disk_with ''[]''\<rparr>) = InvalidAlert"
  using invalid_submission
          [where body = "JObj [(''type'', JStr ''port-scan''), (''message'', JStr ''5 ports probed''),
                               (''severity'', JStr ''CRITICAL'')]"
             and P = node and hashIp = "\<lambda>a. a" and rawIp = "''c0ffee''" and now = 1000
             and stamp = "''2026-01-01T00:00:01.000Z''"
             and srv = "\<lparr>rate_limit_map = [], disk = disk_with ''[]''\<rparr>"]
        invalid_submission
          [where body = "JArr [JStr ''port-scan'']"
             and P = node and hashIp = "\<lambda>a. a" and rawIp = "''c0ffee''" and now = 1000
             and stamp = "''2026-01-01T00:00:01.000Z''"
             and srv = "\<lparr>rate_limit_map = [], disk = disk_with ''[]''\<rparr>"]
  by (simp add: allowedSeverities_def post_alert_def rateLimiter_def cleanupRateLimitMap_def
        post_alert_handler_def io_return_def split: prod.splits)

lemma parse_blank_alert:
  "json_parse (json_stringify (JArr [JObj [(''type'', JStr []), (''message'', JStr []),
       (''severity'', JStr ''LOW''), (''time'', JStr ''2026-01-01T00:00:01.000Z'')]]))
   = Some (JArr [JObj [(''type'', JStr []), (''message'', JStr []),
       (''severity'', JStr ''LOW''), (''time'', JStr ''2026-01-01T00:00:01.000Z'')]])"
  by code_simp

text \<open>
  What C1 says of non-empty strings fails: a body with the empty string for \<^verbatim>\<open>type\<close>
  and for \<^verbatim>\<open>message\<close> is saved, and read back with both empty.
\<close>

theorem empty_strings_counterexample:
  "fst (post_alert node (\<lambda>a. a) ''c0ffee'' 1000 ''2026-01-01T00:00:01.000Z''
          (JObj [(''type'', JStr []), (''message'', JStr []), (''severity'', JStr ''LOW'')])
          \<lparr>rate_limit_map = [], disk = disk_with ''[]''\<rparr>) = AlertSaved
   \<and> fst (readAlertsSafe node (disk (snd
        (post_alert node (\<lambda>a. a) ''c0ffee'' 1000 ''2026-01-01T00:00:01.000Z''
          (JObj [(''type'', JStr []), (''message'', JStr []), (''severity'', JStr ''LOW'')])
          \<lparr>rate_limit_map = [], disk = disk_with ''[]''\<rparr>))))
       = Inr (JArr [JObj [(''type'', JStr []), (''message'', JStr []),
                          (''severity'', JStr ''LOW''), (''time'', JStr ''2026-01-01T00:00:01.000Z'')]])"
  by (simp add: post_alert_def rateLimiter_def cleanupRateLimitMap_def
        handler_valid allowedSeverities_def appendOne_eq readAlertsSafe_eq writeAlertsSafe_eq
        call_def parse_empty_array parse_blank_alert)


lemma port_scan_valid:
  "typeof_string (map_of port_scan ''type'')" "typeof_string (map_of port_scan ''message'')"
  "includes_val allowedSeverities (map_of port_scan ''severity'')"
  by (simp_all add: port_scan_def allowedSeverities_def)

lemma port_scan_stamped:
  "AList.update ''time'' (JStr t) port_scan = port_scan @ [(''time'', JStr t)]"
  by (simp add: port_scan_def)

theorem persisted_record_shape_witness:
  "post_alert node (\<lambda>a. a) ''c0ffee'' 1000 ''2026-01-01T00:00:00.000Z'' (JObj port_scan)
     \<lparr>rate_limit_map = [], disk = disk_with ''[]''\<rparr>
   = (AlertSaved,
      snd (post_alert node (\<lambda>a. a) ''c0ffee'' 1000 ''2026-01-01T00:00:00.000Z'' (JObj port_scan)
             \<lparr>rate_limit_map = [], disk = disk_with ''[]''\<rparr>))
   \<and> (\<exists>xs ps t msg.
         fst (readAlertsSafe node (disk_with ''[]'')) = Inr (JArr xs)
       \<and> alerts_file (disk (snd
            (post_alert node (\<lambda>a. a) ''c0ffee'' 1000 ''2026-01-01T00:00:00.000Z'' (JObj port_scan)
               \<lparr>rate_limit_map = [], disk = disk_with ''[]''\<rparr>)))
           = Some (JSON_stringify node (JArr (xs @ [JObj ps])))
       \<and> map_of ps ''type'' = Some (JStr t)
       \<and> map_of ps ''message'' = Some (JStr msg)
       \<and> (map_of ps ''severity'' = Some (JStr ''LOW'')
          \<or> map_of ps ''severity'' = Some (JStr ''MEDIUM'')
          \<or> map_of ps ''severity'' = Some (JStr ''HIGH''))
       \<and> map_of ps ''time'' = Some (JStr ''2026-01-01T00:00:00.000Z''))"
proof -
  let ?run = "post_alert node (\<lambda>a. a) ''c0ffee'' 1000 ''2026-01-01T00:00:00.000Z'' (JObj port_scan)
                \<lparr>rate_limit_map = [], disk = disk_with ''[]''\<rparr>"
  have saved: "fst ?run = AlertSaved"
    by (simp add: post_alert_def rateLimiter_def cleanupRateLimitMap_def
          handler_valid port_scan_valid appendOne_eq readAlertsSafe_eq writeAlertsSafe_eq
          call_def parse_empty_array)
  then have run: "?run = (AlertSaved, snd ?run)"
    by (metis prod.collapse)
  from persisted_record_shape [OF run] run show ?thesis
    by simp
qed

theorem whole_body_persisted_witness:
  "typeof_string (map_of (port_scan @ [(''time'', JStr ''1999''), (''source'', JStr ''ids-7'')]) ''type'')
   \<and> typeof_string (map_of (port_scan @ [(''time'', JStr ''1999''), (''source'', JStr ''ids-7'')]) ''message'')
   \<and> includes_val allowedSeverities
        (map_of (port_scan @ [(''time'', JStr ''1999''), (''source'', JStr ''ids-7'')]) ''severity'')
   \<and> fst (rateLimiter (\<lambda>a. a) ''c0ffee'' 1000 []) = Next
   \<and> quiet (disk_with ''[]'') \<and> dir_exists (disk_with ''[]'')
   \<and> fst (readAlertsSafe node (disk_with ''[]'')) = Inr (JArr [])
   \<and> fst (post_alert node (\<lambda>a. a) ''c0ffee'' 1000 ''2026-01-01T00:00:00.000Z''
          (JObj (port_scan @ [(''time'', JStr ''1999''), (''source'', JStr ''ids-7'')]))
          \<lparr>rate_limit_map = [], disk = disk_with ''[]''\<rparr>) = AlertSaved
   \<and> alerts_file (disk (snd (post_alert node (\<lambda>a. a) ''c0ffee'' 1000 ''2026-01-01T00:00:00.000Z''
          (JObj (port_scan @ [(''time'', JStr ''1999''), (''source'', JStr ''ids-7'')]))
          \<lparr>rate_limit_map = [], disk = disk_with ''[]''\<rparr>)))
       = Some (json_stringify (JArr [JObj (port_scan @
            [(''time'', JStr ''2026-01-01T00:00:00.000Z''), (''source'', JStr ''ids-7'')])]))"
proof -
  let ?props = "port_scan @ [(''time'', JStr ''1999''), (''source'', JStr ''ids-7'')]"
  let ?srv = "\<lparr>rate_limit_map = [], disk = disk_with ''[]''\<rparr>"
  have v: "typeof_string (map_of ?props ''type'')" "typeof_string (map_of ?props ''message'')"
    "includes_val allowedSeverities (map_of ?props ''severity'')"
    by (simp_all add: port_scan_def allowedSeverities_def)
  have a: "fst (rateLimiter (\<lambda>a. a) ''c0ffee'' 1000 (rate_limit_map ?srv)) = Next"
    by (simp add: rateLimiter_def cleanupRateLimitMap_def)
  have q: "quiet (disk ?srv)" and d: "dir_exists (disk ?srv)"
    by simp_all
  have r: "fst (readAlertsSafe node (disk ?srv)) = Inr (JArr [])"
    by (simp add: readAlertsSafe_eq call_def parse_empty_array)
  have u: "AList.update ''time'' (JStr ''2026-01-01T00:00:00.000Z'') ?props
             = port_scan @ [(''time'', JStr ''2026-01-01T00:00:00.000Z''), (''source'', JStr ''ids-7'')]"
    by (simp add: port_scan_def)
  from whole_body_persisted
         [where P = node and hashIp = "\<lambda>a. a" and rawIp = "''c0ffee''" and now = 1000
            and stamp = "''2026-01-01T00:00:00.000Z''" and props = ?props and srv = ?srv
            and xs = "[]" and body = "JObj ?props"]
       v a q d r
  have "fst (post_alert node (\<lambda>a. a) ''c0ffee'' 1000 ''2026-01-01T00:00:00.000Z'' (JObj ?props) ?srv)
          = AlertSaved
      \<and> alerts_file (disk (snd (post_alert node (\<lambda>a. a) ''c0ffee'' 1000
            ''2026-01-01T00:00:00.000Z'' (JObj ?props) ?srv)))
          = Some (json_stringify (JArr [JObj (AList.update ''time''
                (JStr ''2026-01-01T00:00:00.000Z'') ?props)]))"
    by simp
  with v a r show ?thesis
    unfolding u by simp
qed

text \<open>
  The server gets to such a file by itself when both writes of \<^verbatim>\<open>initAlertsFile\<close> fail.
\<close>

lemma append_after_failed_reset:
  "snd (initAlertsFile node
          \<lparr>dir_exists = True, alerts_file = Some ''{}'', faults = [False, True, True], io_log = []\<rparr>)
     = \<lparr>dir_exists = True, alerts_file = Some ''{}'', faults = [],
        io_log = [ExistsDir, ExistsFile, ReadFile, WriteFile ''[]'', ExistsDir, WriteFile ''[]'']\<rparr>
   \<and> fst (appendOne node (JObj (port_scan @ [(''time'', JStr ''2026-01-01T00:00:00.000Z'')]))
          \<lparr>dir_exists = True, alerts_file = Some ''{}'', faults = [],
           io_log = [ExistsDir, ExistsFile, ReadFile, WriteFile ''[]'', ExistsDir, WriteFile ''[]'']\<rparr>)
       = Inl TypeError
   \<and> fst (readAlertsSafe node (snd
          (appendOne node (JObj (port_scan @ [(''time'', JStr ''2026-01-01T00:00:00.000Z'')]))
             \<lparr>dir_exists = True, alerts_file = Some ''{}'', faults = [],
              io_log = [ExistsDir, ExistsFile, ReadFile, WriteFile ''[]'', ExistsDir, WriteFile ''[]'']\<rparr>)))
       = Inr (JObj [])"
  by (simp add: init_with_failing_resets appendOne_eq readAlertsSafe_eq call_def parse_empty_object)

text \<open>
  What C10 says of every valid submission fails where the request does not reach the
  store or the store is not an array: the twenty-first valid request of a minute gets
  429 and the file stays as it was, and on the file \<^verbatim>\<open>{}\<close> the handler throws and the
  file stays as it was.
\<close>

theorem valid_not_persisted_counterexample:
  "post_alert node (\<lambda>a. a) ''c0ffee'' 1000 ''2026-01-01T00:00:01.000Z''
     (JObj (port_scan @ [(''source'', JStr ''ids-7'')]))
     \<lparr>rate_limit_map = snd (serve (\<lambda>a. a) (replicate 20 (''c0ffee'', 0)) []), disk = disk_with ''[]''\<rparr>
   = (TooManyRequests,
      \<lparr>rate_limit_map = [(''c0ffee'', \<lparr>count = 20, start = 0\<rparr>)], disk = disk_with ''[]''\<rparr>)
   \<and> fst (post_alert node (\<lambda>a. a) ''c0ffee'' 1000 ''2026-01-01T00:00:01.000Z''
          (JObj (port_scan @ [(''source'', JStr ''ids-7'')]))
          \<lparr>rate_limit_map = [], disk = disk_with ''{}''\<rparr>) = Uncaught TypeError
   \<and> alerts_file (disk (snd
        (post_alert node (\<lambda>a. a) ''c0ffee'' 1000 ''2026-01-01T00:00:01.000Z''
          (JObj (port_scan @ [(''source'', JStr ''ids-7'')]))
          \<lparr>rate_limit_map = [], disk = disk_with ''{}''\<rparr>))) = Some ''{}''"
proof -
  have v: "typeof_string (map_of (port_scan @ [(''source'', JStr ''ids-7'')]) ''type'')"
    "typeof_string (map_of (port_scan @ [(''source'', JStr ''ids-7'')]) ''message'')"
    "includes_val allowedSeverities (map_of (port_scan @ [(''source'', JStr ''ids-7'')]) ''severity'')"
    by (simp_all add: port_scan_def allowedSeverities_def)
  show ?thesis
    by (simp add: table_after_twenty post_alert_def rateLimiter_def cleanupRateLimitMap_def
          cleanup_step_def RATE_LIMIT_WINDOW_MS_def MAX_REQUESTS_PER_WINDOW_def
          handler_valid [OF v] appendOne_eq readAlertsSafe_eq call_def parse_empty_object)
qed

end
